theory Spec2Isabelle
  imports Complex_Main
begin

section \<open>Python strings used by \<open>node.py\<close>\<close>

text \<open>
  Python's \<open>sep.join(xs)\<close>, \<open>s.replace(old, new)\<close> (left to right, occurrences that do
  not overlap) and \<open>s.split(sep)\<close> with an explicit separator, on \<open>string\<close>. They
  describe Python for a non-empty \<open>old\<close> and \<open>sep\<close> (an empty one never matches here,
  where Python inserts or raises); \<open>node.py\<close> passes the literals \<open>", ,"\<close> and \<open>":"\<close>
  only.
\<close>

fun join :: "string \<Rightarrow> string list \<Rightarrow> string" where
  "join sep [] = []"
| "join sep [x] = x"
| "join sep (x # y # ys) = x @ sep @ join sep (y # ys)"

function replace :: "string \<Rightarrow> string \<Rightarrow> string \<Rightarrow> string" where
  "replace old new [] = []"
| "replace old new (c # cs) =
     (if old \<noteq> [] \<and> take (length old) (c # cs) = old
      then new @ replace old new (drop (length old) (c # cs))
      else c # replace old new cs)"
  by pat_completeness auto
termination
  by (relation "measure (\<lambda>(old, new, s). length s)") auto

function split_from :: "string \<Rightarrow> string \<Rightarrow> string \<Rightarrow> string list" where
  "split_from sep acc [] = [rev acc]"
| "split_from sep acc (c # cs) =
     (if sep \<noteq> [] \<and> take (length sep) (c # cs) = sep
      then rev acc # split_from sep [] (drop (length sep) (c # cs))
      else split_from sep (c # acc) cs)"
  by pat_completeness auto
termination
  by (relation "measure (\<lambda>(sep, acc, s). length s)") auto

definition split :: "string \<Rightarrow> string \<Rightarrow> string list" where
  "split sep s = split_from sep [] s"

text \<open>Python's \<open>old in s\<close> on strings: \<open>old\<close> occurs in \<open>s\<close>.\<close>

fun contains :: "string \<Rightarrow> string \<Rightarrow> bool" where
  "contains old [] = (old = [])"
| "contains old (c # cs) = (take (length old) (c # cs) = old \<or> contains old cs)"

section \<open>\<open>Node.stringify_tags\<close>\<close>

text \<open>
  \<^verbatim>\<open>tags = ", ".join(map(str, tags)); tags = tags.replace(", ,", ","); return tags\<close>
  The tags are strings here (\<open>str\<close> is the identity on them).
\<close>

definition stringify_tags :: "string list \<Rightarrow> string" where
  "stringify_tags tags = replace '', ,'' '','' (join '', '' tags)"
section \<open>Configuration values, floats and errors\<close>

text \<open>
  A Python \<open>float\<close>: a finite number, an infinity or \<open>nan\<close>. The sign of a zero is not
  kept.
\<close>

datatype fl = Fin real | PInf | NInf | NaN

text \<open>
  The values \<open>toml.load\<close> hands to the node: strings, integers, floats, arrays and
  tables. A table is an association list in insertion order, as a Python \<open>dict\<close> iterates
  it. TOML booleans and dates are left out of the type.
\<close>

datatype val =
    VStr string
  | VInt int
  | VFloat fl
  | VList "val list"
  | VDict "(string \<times> val) list"

text \<open>
  The exceptions the modelled code can raise. \<open>LookupError\<close> is the failure of the
  override lookup. \<open>OutOfModel\<close> is not a Python exception: it marks the calls into numpy
  whose behaviour this development does not describe (an array of tag names that are
  not strings, a \<open>size\<close> that is not an integer); no theorem below reads it as a failure
  or as a result of the program.
\<close>

datatype error =
    ValueError | TypeError | KeyError | IndexError | AttributeError | OverflowError
  | UnboundLocalError | LookupError | OutOfModel

text \<open>
  Float arithmetic. The result of an operation on finite numbers goes through \<open>rnd\<close>:
  a real at or beyond the overflow threshold of float64 becomes an infinity, one at or
  below half the smallest subnormal becomes zero, and any other real is kept as it is
  (the rounding to 53 bits is not modelled). Infinities and \<open>nan\<close> follow IEEE 754.
  Division is numpy's: dividing by zero gives an infinity or \<open>nan\<close>, not an exception.
\<close>

definition rnd :: "real \<Rightarrow> fl" where
  "rnd x =
     (if 2 ^ 1024 - 2 ^ 970 \<le> x then PInf
      else if x \<le> - (2 ^ 1024 - 2 ^ 970) then NInf
      else if \<bar>x\<bar> \<le> 1 / 2 ^ 1075 then Fin 0
      else Fin x)"

fun fl_add :: "fl \<Rightarrow> fl \<Rightarrow> fl" where
  "fl_add (Fin a) (Fin b) = rnd (a + b)"
| "fl_add NaN y = NaN"
| "fl_add x NaN = NaN"
| "fl_add PInf NInf = NaN"
| "fl_add NInf PInf = NaN"
| "fl_add PInf y = PInf"
| "fl_add x PInf = PInf"
| "fl_add NInf y = NInf"
| "fl_add x NInf = NInf"

fun fl_div :: "fl \<Rightarrow> fl \<Rightarrow> fl" where
  "fl_div (Fin a) (Fin b) =
     (if b = 0 then (if a = 0 then NaN else if 0 < a then PInf else NInf)
      else rnd (a / b))"
| "fl_div NaN y = NaN"
| "fl_div x NaN = NaN"
| "fl_div (Fin a) y = Fin 0"
| "fl_div PInf (Fin b) = (if 0 \<le> b then PInf else NInf)"
| "fl_div NInf (Fin b) = (if 0 \<le> b then NInf else PInf)"
| "fl_div x y = NaN"

text \<open>Python's \<open>sum(xs)\<close>: from \<open>0\<close>, adding from the left.\<close>

definition fl_sum :: "fl list \<Rightarrow> fl" where
  "fl_sum xs = foldl fl_add (Fin 0) xs"

fun finite_of :: "fl \<Rightarrow> real option" where
  "finite_of (Fin x) = Some x"
| "finite_of x = None"

section \<open>What Python and numpy supply\<close>

text \<open>
  The code calls \<open>float\<close>, \<open>int\<close> and \<open>numpy.random.default_rng\<close>, none of which
  belongs to the repository. They are parameters of the model:
  \<^item> \<open>entropy seed i\<close> is the \<open>i\<close>-th raw word of the bit generator seeded with
    \<open>seed\<close>;
  \<^item> \<open>py_float s\<close> and \<open>py_int s\<close> are \<open>float(s)\<close> and \<open>int(s)\<close> on a string,
    \<open>None\<close> where Python raises \<open>ValueError\<close>.
  A seed is a natural (\<open>INPUT_TYPES\<close> declares it with \<open>min = 0\<close>) or \<open>None\<close>.
  \<open>default_rng(None)\<close> seeds the generator from the operating system: the streams the
  system hands out during a call are a further parameter, \<open>os k\<close> being the \<open>k\<close>-th of
  them. Two calls get two such families.
\<close>

record builtins =
  entropy :: "nat \<Rightarrow> nat \<Rightarrow> nat"
  py_float :: "string \<Rightarrow> fl option"
  py_int :: "string \<Rightarrow> int option"

type_synonym gen = "nat \<Rightarrow> nat"

type_synonym os_entropy = "nat \<Rightarrow> gen"

definition default_rng :: "builtins \<Rightarrow> os_entropy \<Rightarrow> nat option \<Rightarrow> gen" where
  "default_rng B os sd = (case sd of None \<Rightarrow> os 0 | Some s \<Rightarrow> entropy B s)"

definition next_raw :: "gen \<Rightarrow> nat \<times> gen" where
  "next_raw g = (g 0, \<lambda>i. g (Suc i))"

text \<open>
  The three draws follow numpy's documented contract, each consuming raw words of the
  stream. Which value a given seed yields in numpy is not claimed; every value the
  contract allows is the image of some stream.
  \<^item> \<open>Generator.integers(low, high)\<close>: an integer \<open>low \<le> k < high\<close> (the upper bound
    is exclusive, \<open>endpoint=False\<close>); \<open>ValueError\<close> when \<open>low \<ge> high\<close> or a bound
    does not fit \<open>int64\<close>.
  \<^item> \<open>Generator.random()\<close>: a float in the half-open interval \<open>[0, 1)\<close>, 53 bits.
\<close>

definition integers :: "gen \<Rightarrow> int \<Rightarrow> int \<Rightarrow> error + (int \<times> gen)" where
  "integers g low high =
     (if low < - (2 ^ 63) \<or> 2 ^ 63 < high \<or> high \<le> low then Inl ValueError
      else (case next_raw g of (r, g') \<Rightarrow> Inr (low + int r mod (high - low), g')))"

definition random :: "gen \<Rightarrow> real \<times> gen" where
  "random g = (case next_raw g of (r, g') \<Rightarrow> (real (r mod 2 ^ 53) / 2 ^ 53, g'))"

text \<open>
  \<open>Generator.choice(a, size=n, replace=False, p=weights)\<close>. The draw itself is sequential
  sampling without replacement: a uniform draw scaled to the weight that is left picks
  the item whose cumulative weight passes it, and that item leaves the pool.
\<close>

fun pick :: "real \<Rightarrow> (string \<times> real) list \<Rightarrow> nat" where
  "pick t [] = 0"
| "pick t [x] = 0"
| "pick t (x # y # ys) = (if t < snd x then 0 else Suc (pick (t - snd x) (y # ys)))"

fun sample :: "gen \<Rightarrow> (string \<times> real) list \<Rightarrow> nat \<Rightarrow> string list \<times> gen" where
  "sample g items 0 = ([], g)"
| "sample g [] (Suc k) = ([], g)"
| "sample g (x # xs) (Suc k) =
     (case random g of (u, g1) \<Rightarrow>
        (let items = x # xs;
             i = pick (u * sum_list (map snd items)) items
         in case sample g1 (take i items @ drop (Suc i) items) k of
              (rest, g2) \<Rightarrow> (fst (items ! i) # rest, g2)))"

fun str_of :: "val \<Rightarrow> string option" where
  "str_of (VStr s) = Some s"
| "str_of _ = None"

text \<open>
  The checks of \<open>choice\<close>, all \<open>ValueError\<close> in numpy: an empty population with
  samples asked for; \<open>p\<close> of another length than \<open>a\<close>; a probability that is not finite
  or is negative; probabilities whose sum is further from 1 than the tolerance
  \<open>sqrt(eps) = 2 ** -26\<close>; more samples than the population (\<open>replace=False\<close>); a
  negative size; fewer positive probabilities than samples.
\<close>

definition choice ::
  "gen \<Rightarrow> val list \<Rightarrow> val \<Rightarrow> fl list \<Rightarrow> error + (string list \<times> gen)" where
  "choice g a n p =
     (case (those (map str_of a), n) of
        (Some names, VInt k) \<Rightarrow>
          (case those (map finite_of p) of
             None \<Rightarrow> Inl ValueError
           | Some ps \<Rightarrow>
               if (names = [] \<and> k \<noteq> 0) \<or> length names \<noteq> length ps
                  \<or> (\<exists>w \<in> set ps. w < 0) \<or> 1 / 2 ^ 26 < \<bar>sum_list ps - 1\<bar>
                  \<or> int (length names) < k \<or> k < 0
                  \<or> int (length (filter (\<lambda>w. 0 < w) ps)) < k
               then Inl ValueError
               else Inr (sample g (zip names ps) (nat k)))
      | _ \<Rightarrow> Inl OutOfModel)"

section \<open>\<open>Node.parse_tag_distribution\<close>\<close>

text \<open>
  \<open>for tag in tags\<close>: a list yields its entries, a string its characters, a dict its
  keys; a number is not iterable (\<open>TypeError\<close>).
\<close>

fun iterate :: "val \<Rightarrow> error + val list" where
  "iterate (VStr s) = Inr (map (\<lambda>c. VStr [c]) s)"
| "iterate (VList xs) = Inr xs"
| "iterate (VDict d) = Inr (map (\<lambda>kv. VStr (fst kv)) d)"
| "iterate (VInt i) = Inl TypeError"
| "iterate (VFloat x) = Inl TypeError"

text \<open>
  One turn of the loop. \<open>':' in tag\<close> on a string looks for the character; the
  unpacking \<open>tag_name, weight = tag.split(':')\<close> needs exactly two pieces
  (\<open>ValueError\<close> otherwise) and \<open>float(weight)\<close> may raise \<open>ValueError\<close>. On a list or
  dict entry \<open>in\<close> is membership, and \<open>split\<close> is missing (\<open>AttributeError\<close>); on a
  number \<open>in\<close> raises \<open>TypeError\<close>. The weight \<open>1\<close> of an entry without a colon is the
  integer, which the division turns into a float.
\<close>

fun parse_tag :: "builtins \<Rightarrow> val \<Rightarrow> error + (val \<times> fl)" where
  "parse_tag B (VStr tag) =
     (if CHR '':'' \<in> set tag then
        (case split '':'' tag of
           [tag_name, weight] \<Rightarrow>
             (case py_float B weight of
                None \<Rightarrow> Inl ValueError
              | Some w \<Rightarrow> Inr (VStr tag_name, w))
         | _ \<Rightarrow> Inl ValueError)
      else Inr (VStr tag, Fin 1))"
| "parse_tag B (VList xs) =
     (if VStr '':'' \<in> set xs then Inl AttributeError else Inr (VList xs, Fin 1))"
| "parse_tag B (VDict d) =
     (if '':'' \<in> fst ` set d then Inl AttributeError else Inr (VDict d, Fin 1))"
| "parse_tag B (VInt i) = Inl TypeError"
| "parse_tag B (VFloat x) = Inl TypeError"

fun parse_tags :: "builtins \<Rightarrow> val list \<Rightarrow> error + (val list \<times> fl list)" where
  "parse_tags B [] = Inr ([], [])"
| "parse_tags B (tag # tags) =
     (case parse_tag B tag of
        Inl e \<Rightarrow> Inl e
      | Inr (tag_name, weight) \<Rightarrow>
          (case parse_tags B tags of
             Inl e \<Rightarrow> Inl e
           | Inr (tag_names, weights) \<Rightarrow> Inr (tag_name # tag_names, weight # weights)))"

text \<open>\<open>np.array(weights) / sum(weights)\<close>, entry by entry.\<close>

definition normalise :: "fl list \<Rightarrow> fl list" where
  "normalise weights = map (\<lambda>w. fl_div w (fl_sum weights)) weights"

definition parse_tag_distribution ::
  "builtins \<Rightarrow> val \<Rightarrow> error + (val list \<times> fl list)" where
  "parse_tag_distribution B tags =
     (case iterate tags of
        Inl e \<Rightarrow> Inl e
      | Inr entries \<Rightarrow>
          (case parse_tags B entries of
             Inl e \<Rightarrow> Inl e
           | Inr (tag_names, weights) \<Rightarrow> Inr (tag_names, normalise weights)))"

text \<open>
  The parser as the spec words it: an entry is split at its first colon; the text
  before it is the name and the text after it the weight; an entry with no colon is
  its own name and has weight 1; a weight that is not a number is an error (the spec's
  FormatError, Python's \<open>ValueError\<close>); the weights are normalised.
\<close>

definition spec_name :: "string \<Rightarrow> string" where
  "spec_name tag = takeWhile (\<lambda>c. c \<noteq> CHR '':'') tag"

definition spec_weight :: "builtins \<Rightarrow> string \<Rightarrow> fl option" where
  "spec_weight B tag =
     (if CHR '':'' \<in> set tag
      then py_float B (drop 1 (dropWhile (\<lambda>c. c \<noteq> CHR '':'') tag))
      else Some (Fin 1))"


section \<open>\<open>Node.select_tags\<close>\<close>

text \<open>
  \<open>seed = seed or self.seed\<close>: \<open>None\<close> and \<open>0\<close> are both falsy, so either gives the
  node's stored seed, which may itself be \<open>None\<close> (the default of \<open>Scene\<close>).
\<close>

definition effective_seed :: "nat option \<Rightarrow> nat option \<Rightarrow> nat option" where
  "effective_seed sd self_seed =
     (case sd of None \<Rightarrow> self_seed | Some s \<Rightarrow> if s = 0 then self_seed else Some s)"

text \<open>\<open>tags.get(key, default)\<close> on a dict.\<close>

definition dict_get :: "(string \<times> val) list \<Rightarrow> string \<Rightarrow> val \<Rightarrow> val" where
  "dict_get d key dflt = (case map_of d key of None \<Rightarrow> dflt | Some v \<Rightarrow> v)"

text \<open>
  \<open>if "tags" in tags: tags = tags.get("tags", [])\<close>. After the \<open>list\<close> indirection
  \<open>tags\<close> can be any value: \<open>in\<close> is key membership on a dict, substring search on a
  string, element membership on a list and a \<open>TypeError\<close> on a number; only a dict has
  \<open>get\<close>.
\<close>

fun take_tags :: "val \<Rightarrow> error + val" where
  "take_tags (VDict d) =
     (case map_of d ''tags'' of None \<Rightarrow> Inr (VDict d) | Some t \<Rightarrow> Inr t)"
| "take_tags (VStr s) = (if contains ''tags'' s then Inl AttributeError else Inr (VStr s))"
| "take_tags (VList xs) =
     (if VStr ''tags'' \<in> set xs then Inl AttributeError else Inr (VList xs))"
| "take_tags (VInt i) = Inl TypeError"
| "take_tags (VFloat x) = Inl TypeError"

text \<open>
  \<open>len(tags)\<close>, \<open>min(n[1], len(tags))\<close> (the first argument unless the second is
  smaller) and \<open>int(x)\<close> (truncation towards zero; \<open>OverflowError\<close> on an infinity,
  \<open>ValueError\<close> on \<open>nan\<close>).
\<close>

fun len :: "val \<Rightarrow> error + int" where
  "len (VStr s) = Inr (int (length s))"
| "len (VList xs) = Inr (int (length xs))"
| "len (VDict d) = Inr (int (length d))"
| "len (VInt i) = Inl TypeError"
| "len (VFloat x) = Inl TypeError"

fun py_min :: "val \<Rightarrow> int \<Rightarrow> error + val" where
  "py_min (VInt i) l = Inr (VInt (min i l))"
| "py_min (VFloat (Fin x)) l = Inr (if of_int l < x then VInt l else VFloat (Fin x))"
| "py_min (VFloat PInf) l = Inr (VInt l)"
| "py_min (VFloat NInf) l = Inr (VFloat NInf)"
| "py_min (VFloat NaN) l = Inr (VFloat NaN)"
| "py_min v l = Inl TypeError"

fun to_int :: "builtins \<Rightarrow> val \<Rightarrow> error + int" where
  "to_int B (VInt i) = Inr i"
| "to_int B (VFloat (Fin x)) = Inr (if 0 \<le> x then \<lfloor>x\<rfloor> else \<lceil>x\<rceil>)"
| "to_int B (VFloat NaN) = Inl ValueError"
| "to_int B (VFloat x) = Inl OverflowError"
| "to_int B (VStr s) = (case py_int B s of None \<Rightarrow> Inl ValueError | Some i \<Rightarrow> Inr i)"
| "to_int B v = Inl TypeError"

text \<open>
  Lines 103 to 106:
  \<^verbatim>\<open>
  if isinstance(n, list):
      min_n = n[0]
      max_n = min(n[1], len(tags))
      n = rng.integers(int(min_n), int(max_n))
  \<close>
\<close>

definition repeat_count :: "builtins \<Rightarrow> gen \<Rightarrow> val \<Rightarrow> val \<Rightarrow> error + (val \<times> gen)" where
  "repeat_count B rng n tags =
     (case n of
        VList ns \<Rightarrow>
          (case ns of
             min_n # n1 # rest \<Rightarrow>
               (case len tags of
                  Inl e \<Rightarrow> Inl e
                | Inr l \<Rightarrow>
                    (case py_min n1 l of
                       Inl e \<Rightarrow> Inl e
                     | Inr max_n \<Rightarrow>
                         (case to_int B min_n of
                            Inl e \<Rightarrow> Inl e
                          | Inr low \<Rightarrow>
                              (case to_int B max_n of
                                 Inl e \<Rightarrow> Inl e
                               | Inr high \<Rightarrow>
                                   (case integers rng low high of
                                      Inl e \<Rightarrow> Inl e
                                    | Inr (k, rng') \<Rightarrow> Inr (VInt k, rng'))))))
           | _ \<Rightarrow> Inl IndexError)
      | _ \<Rightarrow> Inr (n, rng))"

text \<open>\<open>rng.random() > p\<close>: the draw is made, then compared with a number.\<close>

definition not_fired :: "gen \<Rightarrow> val \<Rightarrow> error + (bool \<times> gen)" where
  "not_fired rng p =
     (case random rng of
        (u, rng') \<Rightarrow>
          (case p of
             VInt i \<Rightarrow> Inr (of_int i < u, rng')
           | VFloat (Fin x) \<Rightarrow> Inr (x < u, rng')
           | VFloat NInf \<Rightarrow> Inr (True, rng')
           | VFloat x \<Rightarrow> Inr (False, rng')
           | _ \<Rightarrow> Inl TypeError))"

text \<open>
  Lines 111 to 121: parse the distribution, draw \<open>n\<close> names without replacement, join
  them.
\<close>

definition draw_tags :: "builtins \<Rightarrow> gen \<Rightarrow> val \<Rightarrow> val \<Rightarrow> error + string" where
  "draw_tags B rng tags n =
     (case parse_tag_distribution B tags of
        Inl e \<Rightarrow> Inl e
      | Inr (tag_names, weights) \<Rightarrow>
          (case choice rng tag_names n weights of
             Inl e \<Rightarrow> Inl e
           | Inr (selected_tags, rng') \<Rightarrow> Inr (stringify_tags selected_tags)))"

text \<open>Lines 99 to 121, what a dict does once the \<open>list\<close> indirection is resolved.\<close>

definition resolve_node ::
  "builtins \<Rightarrow> gen \<Rightarrow> val \<Rightarrow> val \<Rightarrow> val \<Rightarrow> error + string" where
  "resolve_node B rng tags p n =
     (case take_tags tags of
        Inl e \<Rightarrow> Inl e
      | Inr tags' \<Rightarrow>
          (case repeat_count B rng n tags' of
             Inl e \<Rightarrow> Inl e
           | Inr (n', rng1) \<Rightarrow>
               (case not_fired rng1 p of
                  Inl e \<Rightarrow> Inl e
                | Inr (quiet, rng2) \<Rightarrow>
                    if quiet then Inr [] else draw_tags B rng2 tags' n')))"

lemma size_map_of: "map_of d k = Some v \<Longrightarrow> size v < size (VDict d)"
  by (induction d) (auto split: if_splits)

text \<open>
  \<open>select_tags(self, tags, p=1, n=1, seed=None)\<close>; \<open>self_seed\<close> is \<open>self.seed\<close>. The
  generator is made anew from the seed at every call, the recursive one included,
  which passes no seed. With the seed \<open>None\<close> the call takes the first stream of the
  operating system and leaves the others to the recursive call.
\<close>

function select_tags ::
  "builtins \<Rightarrow> os_entropy \<Rightarrow> nat option \<Rightarrow> val \<Rightarrow> val \<Rightarrow> val \<Rightarrow> nat option
     \<Rightarrow> error + string" where
  "select_tags B os self_seed tags p n sd =
     (let rng = default_rng B os (effective_seed sd self_seed) in
      case tags of
        VStr s \<Rightarrow> Inr s
      | VDict d \<Rightarrow>
          (let p' = dict_get d ''probability'' p;
               n' = dict_get d ''repeat'' n
           in case map_of d ''list'' of
                None \<Rightarrow> resolve_node B rng (VDict d) p' n'
              | Some l \<Rightarrow>
                  (case select_tags B (\<lambda>k. os (Suc k)) self_seed l p' n' None of
                     Inl e \<Rightarrow> Inl e
                   | Inr selected_from_list \<Rightarrow>
                       (case map_of d selected_from_list of
                          None \<Rightarrow> Inl KeyError
                        | Some t \<Rightarrow> resolve_node B rng t p' n')))
      | _ \<Rightarrow> draw_tags B rng tags n)"
  by pat_completeness auto
termination
  by (relation "measure (\<lambda>(B, os, self_seed, tags, p, n, sd). size tags)")
     (auto dest: size_map_of)

text \<open>
  The working tag collection of a dict, lines 95 to 100: the value the \<open>list\<close>
  indirection selects (the dict itself without a \<open>list\<close> field), then its \<open>tags\<close> field
  if it has one.
\<close>

definition working_tags ::
  "builtins \<Rightarrow> os_entropy \<Rightarrow> nat option \<Rightarrow> (string \<times> val) list \<Rightarrow> val \<Rightarrow> val
     \<Rightarrow> error + val" where
  "working_tags B os self_seed d p n =
     (case map_of d ''list'' of
        None \<Rightarrow> take_tags (VDict d)
      | Some l \<Rightarrow>
          (case select_tags B (\<lambda>k. os (Suc k)) self_seed l p n None of
             Inl e \<Rightarrow> Inl e
           | Inr selected_from_list \<Rightarrow>
               (case map_of d selected_from_list of
                  None \<Rightarrow> Inl KeyError
                | Some t \<Rightarrow> take_tags t)))"

section \<open>The node and \<open>Node.run_node\<close>\<close>

text \<open>
  The fields of a \<open>Node\<close>. A component (a value of \<open>self.components\<close>) is an object of
  some type \<open>'c\<close>: a fragment of text, or another node-like object (\<open>scene.py\<close> stores
  \<open>Composition\<close>, \<open>Action\<close>, \<open>Character\<close> and \<open>Environment\<close> objects, whose classes are not
  among the sources). \<open>prompt\<close> lists the same objects.
\<close>

record 'c node =
  seed :: "nat option"
  data :: "(string \<times> val) list"
  components :: "(string \<times> 'c) list"
  prompt :: "'c list"

text \<open>
  What the code asks of the node's class and of its components, taken as parameters:
  \<^item> \<open>hook os seed data components\<close> is \<open>self.build_components()\<close>, which a subclass
    overrides: from the seed, the data and the current components it gives the new
    components, or raises;
  \<^item> \<open>has_seed c\<close> is \<open>hasattr(c, "seed")\<close> and \<open>set_seed s c\<close> the assignment
    \<open>c.seed = s\<close>;
  \<^item> \<open>str_of_component os c\<close> is \<open>str(c)\<close>, the text or the exception, beside the
    object as the call leaves it (the \<open>__str__\<close> of a node calls \<open>get_prompt\<close>, which
    rebuilds the node's prompt).
  \<open>os\<close> stands for the streams the operating system hands out during the run.
\<close>

record 'c methods =
  hook :: "os_entropy \<Rightarrow> nat option \<Rightarrow> (string \<times> val) list \<Rightarrow> (string \<times> 'c) list
             \<Rightarrow> error + (string \<times> 'c) list"
  has_seed :: "'c \<Rightarrow> bool"
  set_seed :: "nat \<Rightarrow> 'c \<Rightarrow> 'c"
  str_of_component :: "os_entropy \<Rightarrow> 'c \<Rightarrow> (error + string) \<times> 'c"

text \<open>\<open>def build_components(self): pass\<close>, the hook as \<open>Node\<close> itself has it.\<close>

definition build_components ::
  "os_entropy \<Rightarrow> nat option \<Rightarrow> (string \<times> val) list \<Rightarrow> (string \<times> 'c) list
     \<Rightarrow> error + (string \<times> 'c) list" where
  "build_components os sd d comps = Inr comps"

text \<open>The class \<open>Node\<close> itself, over components with the methods \<open>M\<close>.\<close>

definition node_class :: "'c methods \<Rightarrow> 'c methods" where
  "node_class M = M\<lparr>hook := build_components\<rparr>"

text \<open>
  \<open>Node.__init__(self, seed=0, data_file="")\<close>. \<open>cfg\<close> is what \<open>load_data(data_file)\<close>
  returned (the parsed TOML file, or \<open>{}\<close> when it could not be read). The components
  start empty and \<open>build_components\<close> leaves them so.
\<close>

definition init :: "nat option \<Rightarrow> (string \<times> val) list \<Rightarrow> 'c node" where
  "init sd cfg = \<lparr>seed = sd, data = cfg, components = [], prompt = []\<rparr>"

text \<open>
  \<open>build_prompt\<close>: run the hook, then list the components. An exception of the hook
  leaves the node as it was.
\<close>

definition build_prompt :: "'c methods \<Rightarrow> os_entropy \<Rightarrow> 'c node \<Rightarrow> error option \<times> 'c node" where
  "build_prompt M os self =
     (case hook M os (seed self) (data self) (components self) of
        Inl e \<Rightarrow> (Some e, self)
      | Inr comps \<Rightarrow> (None, self\<lparr>components := comps, prompt := map snd comps\<rparr>))"

text \<open>
  \<open>map(str, tags)\<close> inside \<open>stringify_tags\<close>, from left to right: each object is
  rendered, and is left as its \<open>__str__\<close> made it; the first exception ends the loop.
\<close>

fun str_all ::
  "('c \<Rightarrow> (error + string) \<times> 'c) \<Rightarrow> 'c list \<Rightarrow> (error + string list) \<times> 'c list" where
  "str_all f [] = (Inr [], [])"
| "str_all f (c # cs) =
     (case f c of
        (Inl e, c') \<Rightarrow> (Inl e, c' # cs)
      | (Inr s, c') \<Rightarrow>
          (case str_all f cs of
             (Inl e, cs') \<Rightarrow> (Inl e, c' # cs')
           | (Inr ss, cs') \<Rightarrow> (Inr (s # ss), c' # cs')))"

text \<open>
  \<open>get_prompt\<close>: \<open>build_prompt\<close>, then \<open>stringify_tags(self.prompt)\<close>. The objects of the
  prompt are the objects of the components, so what \<open>str\<close> did to them shows in both.
\<close>

definition get_prompt :: "'c methods \<Rightarrow> os_entropy \<Rightarrow> 'c node \<Rightarrow> (error + string) \<times> 'c node" where
  "get_prompt M os self =
     (case build_prompt M os self of
        (Some e, self') \<Rightarrow> (Inl e, self')
      | (None, self') \<Rightarrow>
          (case str_all (str_of_component M os) (prompt self') of
             (r, cs) \<Rightarrow>
               (case r of Inl e \<Rightarrow> Inl e | Inr ss \<Rightarrow> Inr (stringify_tags ss),
                self'\<lparr>components := zip (map fst (components self')) cs, prompt := cs\<rparr>)))"

text \<open>
  \<open>update_seed\<close>: the node's seed, and the seed of every component that has one.
\<close>

definition seed_component :: "'c methods \<Rightarrow> nat \<Rightarrow> string \<times> 'c \<Rightarrow> string \<times> 'c" where
  "seed_component M sd kc = (fst kc, if has_seed M (snd kc) then set_seed M sd (snd kc) else snd kc)"

definition update_seed :: "'c methods \<Rightarrow> 'c node \<Rightarrow> nat \<Rightarrow> 'c node" where
  "update_seed M self sd =
     self\<lparr>seed := Some sd, components := map (seed_component M sd) (components self)\<rparr>"

text \<open>\<open>self.data[arg] = output\<close>: an existing key keeps its place, a new one goes last.\<close>

fun dict_set :: "(string \<times> val) list \<Rightarrow> string \<Rightarrow> val \<Rightarrow> (string \<times> val) list" where
  "dict_set [] k v = [(k, v)]"
| "dict_set (kv # d) k v = (if fst kv = k then (k, v) # d else kv # dict_set d k v)"

text \<open>
  The loop of \<open>run_node\<close>:
  \<^verbatim>\<open>
  for arg, value in kwargs.items():
      if value != "random":
          output = get_nested_dict_value(self.data, value)
      self.data[arg] = output
  \<close>
  The assignment stands outside the \<open>if\<close>. \<open>output\<close> is the local variable, \<open>None\<close>
  while it is unbound; reading it then raises \<open>UnboundLocalError\<close>. An exception
  leaves \<open>self.data\<close> as the turns before it made it. \<open>lookup\<close> is
  \<open>get_nested_dict_value\<close>, which \<open>utils.py\<close> defines.
\<close>

type_synonym lookup = "(string \<times> val) list \<Rightarrow> string \<Rightarrow> error + val"

fun override_loop ::
  "lookup \<Rightarrow> (string \<times> val) list \<Rightarrow> val option \<Rightarrow> (string \<times> string) list
     \<Rightarrow> error option \<times> (string \<times> val) list" where
  "override_loop lookup d output [] = (None, d)"
| "override_loop lookup d output ((arg, v) # kwargs) =
     (case (if v \<noteq> ''random'' then map_sum id Some (lookup d v) else Inr output) of
        Inl e \<Rightarrow> (Some e, d)
      | Inr None \<Rightarrow> (Some UnboundLocalError, d)
      | Inr (Some out) \<Rightarrow> override_loop lookup (dict_set d arg out) (Some out) kwargs)"

text \<open>
  \<open>run_node(self, seed, **kwargs)\<close> returns the prompt (the only member of the tuple)
  or raises; the node it leaves behind is returned beside it.
\<close>

definition run_node ::
  "'c methods \<Rightarrow> lookup \<Rightarrow> os_entropy \<Rightarrow> 'c node \<Rightarrow> nat \<Rightarrow> (string \<times> string) list
     \<Rightarrow> (error + string) \<times> 'c node" where
  "run_node M lookup os self sd kwargs =
     (case override_loop lookup (data self) None kwargs of
        (Some e, d) \<Rightarrow> (Inl e, self\<lparr>data := d\<rparr>)
      | (None, d) \<Rightarrow> get_prompt M os (update_seed M (self\<lparr>data := d\<rparr>) sd))"

text \<open>
  Modelled from the spec: \<open>get_nested_dict_value\<close> of \<open>utils.py\<close>, which is not among
  the sources. The spec has the override's value name a location inside the
  component's own configuration, a dot-separated key sequence, and calls a path that
  does not resolve a lookup failure.
\<close>

fun walk :: "val \<Rightarrow> string list \<Rightarrow> error + val" where
  "walk v [] = Inr v"
| "walk (VDict d) (k # ks) =
     (case map_of d k of None \<Rightarrow> Inl LookupError | Some v \<Rightarrow> walk v ks)"
| "walk v (k # ks) = Inl LookupError"

definition get_nested_dict_value :: lookup where
  "get_nested_dict_value d path = walk (VDict d) (split ''.'' path)"

section \<open>Samples of the parameters\<close>

text \<open>
  For the concrete runs below: a stream whose \<open>i\<close>-th word is
  \<open>(seed + i) * 2 ^ 51 + seed\<close> (so the uniform draws step through the quarters of the
  unit interval), parsers that know the literals \<open>0\<close>, \<open>1\<close> and \<open>2\<close>, and two families of
  streams for the operating system.
\<close>

definition sample_builtins :: builtins where
  "sample_builtins =
     \<lparr>entropy = (\<lambda>sd i. (sd + i) * 2 ^ 51 + sd),
      py_float = (\<lambda>s. if s = ''0'' then Some (Fin 0) else if s = ''1'' then Some (Fin 1)
                      else if s = ''2'' then Some (Fin 2) else None),
      py_int = (\<lambda>s. if s = ''0'' then Some 0 else if s = ''1'' then Some 1
                    else if s = ''2'' then Some 2 else None)\<rparr>"

definition os_low :: os_entropy where
  "os_low k i = 0"

definition os_high :: os_entropy where
  "os_high k i = 3 * 2 ^ 51"

text \<open>
  Two kinds of components: plain strings, and leaves that hold a seed and a tag
  collection and render themselves with \<open>select_tags\<close>, the way the spec has a
  component resolve its configured entries.
\<close>

definition fragments :: "string methods" where
  "fragments =
     \<lparr>hook = build_components, has_seed = (\<lambda>c. False), set_seed = (\<lambda>sd c. c),
      str_of_component = (\<lambda>os c. (Inr c, c))\<rparr>"

definition leaves :: "(nat \<times> val) methods" where
  "leaves =
     \<lparr>hook = build_components, has_seed = (\<lambda>c. True), set_seed = (\<lambda>sd c. (sd, snd c)),
      str_of_component =
        (\<lambda>os c. (select_tags sample_builtins os (Some (fst c)) (snd c) (VInt 1) (VInt 1) None, c))\<rparr>"

section \<open>Strings: joining, splitting, replacing\<close>

lemma split_from_nonempty: "split_from sep acc s \<noteq> []"
  by (induction sep acc s rule: split_from.induct) auto

lemma join_Cons: "xs \<noteq> [] \<Longrightarrow> join sep (x # xs) = x @ sep @ join sep xs"
  by (cases xs) auto

lemma join_split_from: "join sep (split_from sep acc s) = rev acc @ s"
proof (induction sep acc s rule: split_from.induct)
  case (1 sep acc)
  then show ?case by simp
next
  case (2 sep acc c cs)
  show ?case
  proof (cases "sep \<noteq> [] \<and> take (length sep) (c # cs) = sep")
    case True
    then have "join sep (split_from sep acc (c # cs)) =
        rev acc @ sep @ join sep (split_from sep [] (drop (length sep) (c # cs)))"
      by (simp add: join_Cons split_from_nonempty)
    also have "\<dots> = rev acc @ sep @ drop (length sep) (c # cs)"
      using 2(1) True by simp
    also have "\<dots> = rev acc @ (c # cs)"
      using True by (metis append_take_drop_id)
    finally show ?thesis .
  next
    case False
    then show ?thesis using 2(2) by auto
  qed
qed

lemma join_split: "join sep (split sep s) = s"
  by (simp add: split_def join_split_from)

lemma replace_absent: "\<not> contains old s \<Longrightarrow> replace old new s = s"
  by (induction old new s rule: replace.induct) auto

lemma replace_length_le:
  "length new \<le> length old \<Longrightarrow> length (replace old new s) \<le> length s"
proof (induction old new s rule: replace.induct)
  case (1 old new)
  then show ?case by simp
next
  case (2 old new c cs)
  show ?case
  proof (cases "old \<noteq> [] \<and> take (length old) (c # cs) = old")
    case True
    then have len: "length old \<le> length (c # cs)"
      by (metis length_take min.cobounded1)
    have "length (replace old new (drop (length old) (c # cs))) \<le> length (c # cs) - length old"
      using 2(1) True 2(3) by simp
    then show ?thesis using True len 2(3) by simp
  next
    case False
    then show ?thesis using 2(2) 2(3) by auto
  qed
qed

lemma replace_length_less:
  "old \<noteq> [] \<Longrightarrow> length new < length old \<Longrightarrow> contains old s \<Longrightarrow>
   length (replace old new s) < length s"
proof (induction old new s rule: replace.induct)
  case (1 old new)
  then show ?case by simp
next
  case (2 old new c cs)
  show ?case
  proof (cases "take (length old) (c # cs) = old")
    case True
    then have len: "length old \<le> length (c # cs)"
      by (metis length_take min.cobounded1)
    have "length (replace old new (drop (length old) (c # cs))) \<le> length (c # cs) - length old"
      using replace_length_le [of new old "drop (length old) (c # cs)"] 2(4) by simp
    then show ?thesis using True len 2(3,4) by simp
  next
    case False
    then have "contains old cs" using 2(5) by simp
    then show ?thesis using 2(2) False 2(3,4) by auto
  qed
qed

lemma replace_fixed_iff:
  "old \<noteq> [] \<Longrightarrow> length new < length old \<Longrightarrow> (replace old new s = s) = (\<not> contains old s)"
  using replace_absent replace_length_less by (metis less_irrefl)

lemma replace_Nil_iff: "new \<noteq> [] \<Longrightarrow> (replace old new s = []) = (s = [])"
  by (cases s) auto

section \<open>The serializer\<close>

text \<open>
  C9. The claim: splitting the output of \<open>stringify_tags\<close> on \<open>", "\<close> and running
  \<open>stringify_tags\<close> on the pieces gives the same string, for every input. It fails: the
  replacement is one pass from left to right over occurrences that do not overlap, so
  two adjacent empty fragments leave a \<open>", ,"\<close> behind, and the second run removes it.
  For \<open>["a", "", "", "b"]\<close> the join is \<open>"a, , , b"\<close>, the output \<open>"a, , b"\<close>, and the
  second run gives \<open>"a, b"\<close>.
\<close>

theorem stringify_tags_rejoin_counterexample:
  "stringify_tags (split '', '' (stringify_tags [''a'', [], [], ''b'']))
     \<noteq> stringify_tags [''a'', [], [], ''b'']"
  by (simp add: stringify_tags_def split_def)

text \<open>
  C9, amended. Running \<open>stringify_tags\<close> on the pieces applies the replacement pass once
  more to the output; the result is the output itself exactly when the output has no
  \<open>", ,"\<close> left in it.
\<close>

theorem stringify_tags_rejoin:
  "stringify_tags (split '', '' (stringify_tags tags))
     = replace '', ,'' '','' (stringify_tags tags)
   \<and> ((stringify_tags (split '', '' (stringify_tags tags)) = stringify_tags tags)
        = (\<not> contains '', ,'' (stringify_tags tags)))"
proof -
  have again: "stringify_tags (split '', '' s) = replace '', ,'' '','' s" for s
    by (simp add: stringify_tags_def join_split)
  have "(replace '', ,'' '','' s = s) = (\<not> contains '', ,'' s)" for s
    by (rule replace_fixed_iff) simp_all
  then show ?thesis by (simp add: again)
qed

theorem stringify_tags_rejoin_witness:
  "stringify_tags (split '', '' (stringify_tags [''a'', [], ''b'']))
     = stringify_tags [''a'', [], ''b'']
   \<and> stringify_tags [''a'', [], ''b''] = ''a, b''"
proof -
  have out: "stringify_tags [''a'', [], ''b''] = ''a, b''"
    by (simp add: stringify_tags_def)
  have "\<not> contains '', ,'' ''a, b''" by simp
  then show ?thesis
    using stringify_tags_rejoin [of "[''a'', [], ''b'']"] by (simp add: out)
qed

section \<open>Equations for evaluating the model\<close>

declare select_tags.simps [simp del]

lemma select_tags_VStr: "select_tags B os ss (VStr s) p n sd = Inr s"
  by (simp add: select_tags.simps)

lemma select_tags_VList:
  "select_tags B os ss (VList xs) p n sd =
     draw_tags B (default_rng B os (effective_seed sd ss)) (VList xs) n"
  by (simp add: select_tags.simps)

lemma select_tags_VInt:
  "select_tags B os ss (VInt i) p n sd =
     draw_tags B (default_rng B os (effective_seed sd ss)) (VInt i) n"
  by (simp add: select_tags.simps)

lemma select_tags_VFloat:
  "select_tags B os ss (VFloat x) p n sd =
     draw_tags B (default_rng B os (effective_seed sd ss)) (VFloat x) n"
  by (simp add: select_tags.simps)

lemma select_tags_VDict:
  "select_tags B os ss (VDict d) p n sd =
     (case map_of d ''list'' of
        None \<Rightarrow> resolve_node B (default_rng B os (effective_seed sd ss)) (VDict d)
                 (dict_get d ''probability'' p) (dict_get d ''repeat'' n)
      | Some l \<Rightarrow>
          (case select_tags B (\<lambda>k. os (Suc k)) ss l
                  (dict_get d ''probability'' p) (dict_get d ''repeat'' n) None of
             Inl e \<Rightarrow> Inl e
           | Inr selected_from_list \<Rightarrow>
               (case map_of d selected_from_list of
                  None \<Rightarrow> Inl KeyError
                | Some t \<Rightarrow> resolve_node B (default_rng B os (effective_seed sd ss)) t
                            (dict_get d ''probability'' p) (dict_get d ''repeat'' n))))"
  by (subst select_tags.simps) (simp add: Let_def)

lemma sample_numeral:
  "sample g (x # xs) (numeral v) =
     (case random g of (u, g1) \<Rightarrow>
        (let items = x # xs;
             i = pick (u * sum_list (map snd items)) items
         in case sample g1 (take i items @ drop (Suc i) items) (pred_numeral v) of
              (rest, g2) \<Rightarrow> (fst (items ! i) # rest, g2)))"
  by (simp add: numeral_eq_Suc)

lemma sample_one:
  "sample g (x # xs) 1 =
     (case random g of (u, g1) \<Rightarrow>
        (let items = x # xs;
             i = pick (u * sum_list (map snd items)) items
         in (case sample g1 (take i items @ drop (Suc i) items) 0 of
              (rest, g2) \<Rightarrow> (fst (items ! i) # rest, g2))))"
  unfolding One_nat_def by (rule sample.simps(3))

text \<open>Reals well inside the range of float64 go through \<open>rnd\<close> unchanged.\<close>

lemma rnd_exact: "1 / 2 ^ 1000 \<le> \<bar>x\<bar> \<Longrightarrow> \<bar>x\<bar> \<le> 2 ^ 1000 \<Longrightarrow> rnd x = Fin x"
proof -
  assume lo: "1 / 2 ^ 1000 \<le> \<bar>x\<bar>" and hi: "\<bar>x\<bar> \<le> 2 ^ 1000"
  have a: "(2::real) ^ 1000 < 2 ^ 1024 - 2 ^ 970" by simp
  have b: "1 / (2::real) ^ 1075 < 1 / 2 ^ 1000" by simp
  show ?thesis
    using lo hi a b unfolding rnd_def by (auto simp: abs_if split: if_splits)
qed

lemma rnd_zero: "rnd 0 = Fin 0"
  by (simp add: rnd_def)

lemmas run_simps =
  select_tags_VStr select_tags_VList select_tags_VInt select_tags_VFloat select_tags_VDict
  resolve_node_def draw_tags_def repeat_count_def not_fired_def choice_def random_def
  integers_def default_rng_def next_raw_def effective_seed_def dict_get_def
  parse_tag_distribution_def normalise_def fl_sum_def rnd_exact rnd_zero split_def
  stringify_tags_def sample_builtins_def os_low_def os_high_def sample_numeral sample_one

section \<open>The per-call seed\<close>

lemma effective_seed_stored:
  "effective_seed (Some 0) ss = ss" "effective_seed None ss = ss"
  "effective_seed (Some s) (Some s) = Some s"
  by (simp_all add: effective_seed_def)

lemma effective_seed_Some: "\<exists>s. effective_seed sd (Some ss) = Some s"
  by (simp add: effective_seed_def split: option.splits)

lemma default_rng_seeded:
  "default_rng B os (effective_seed sd (Some ss)) = default_rng B os' (effective_seed sd (Some ss))"
  using effective_seed_Some [of sd ss] by (auto simp: default_rng_def)

text \<open>With an integer stored seed no call reads the operating system's entropy.\<close>

lemma select_tags_seeded:
  "select_tags B os (Some ss) tags p n sd = select_tags B os' (Some ss) tags p n sd"
proof (induction tags arbitrary: os os' p n sd rule: measure_induct_rule [where f = size])
  case (less tags)
  show ?case
  proof (cases tags)
    case (VDict d)
    have rec: "select_tags B (\<lambda>k. os (Suc k)) (Some ss) l p' n' None
        = select_tags B (\<lambda>k. os' (Suc k)) (Some ss) l p' n' None"
      if "map_of d ''list'' = Some l" for l p' n'
      using less [of l] size_map_of [OF that] VDict by blast
    show ?thesis
      unfolding VDict select_tags_VDict
      using rec default_rng_seeded [of B os sd ss os']
      by (auto split: option.splits sum.splits)
  qed (simp_all add: select_tags_VStr select_tags_VList select_tags_VInt select_tags_VFloat
         default_rng_seeded [of B os sd ss os'])
qed

text \<open>
  C10. The claim: for every node and every tags value, \<open>select_tags(tags, seed=0)\<close>
  equals \<open>select_tags(tags)\<close>, both using the node's stored seed. \<open>seed or self.seed\<close>
  does take \<open>0\<close> for unset, but the stored seed can be \<open>None\<close> (\<open>Scene\<close> passes
  \<open>seed=None\<close> by default): then both calls run \<open>default_rng(None)\<close>, each seeded afresh
  by the operating system, and they differ as the entropy handed to them does.
\<close>

theorem select_tags_seed_zero_counterexample:
  "select_tags sample_builtins os_low None (VList [VStr ''x'', VStr ''y''])
      (VInt 1) (VInt 1) (Some 0)
     \<noteq> select_tags sample_builtins os_high None (VList [VStr ''x'', VStr ''y''])
      (VInt 1) (VInt 1) None"
  by (simp add: run_simps)

text \<open>
  C10, amended. On a node whose stored seed is an integer, \<open>select_tags(tags, seed=0)\<close>,
  \<open>select_tags(tags)\<close> and \<open>select_tags(tags, seed=self.seed)\<close> are equal, whatever the
  operating system would hand out: the explicit seed \<open>0\<close> never names a generator of its
  own. On a node whose stored seed is \<open>None\<close> the first two are the same draw from the
  same operating-system entropy.
\<close>

theorem select_tags_seed_zero:
  "select_tags B os (Some ss) tags p n (Some 0) = select_tags B os' (Some ss) tags p n None
   \<and> select_tags B os' (Some ss) tags p n None = select_tags B os'' (Some ss) tags p n (Some ss)
   \<and> select_tags B os None tags p n (Some 0) = select_tags B os None tags p n None"
proof -
  have same: "select_tags B os st tags p n (Some 0) = select_tags B os st tags p n None" for os st
    by (cases tags)
       (simp_all add: effective_seed_stored select_tags_VStr select_tags_VList select_tags_VInt
          select_tags_VFloat select_tags_VDict cong: option.case_cong sum.case_cong)
  have own: "select_tags B os (Some ss) tags p n None = select_tags B os (Some ss) tags p n (Some ss)"
    for os
    by (cases tags)
       (simp_all add: effective_seed_stored select_tags_VStr select_tags_VList select_tags_VInt
          select_tags_VFloat select_tags_VDict cong: option.case_cong sum.case_cong)
  show ?thesis
    using same [of os "Some ss"] same [of os None] own [of os']
      select_tags_seeded [of B os ss tags p n None os']
      select_tags_seeded [of B os' ss tags p n "Some ss" os'']
    by simp
qed

text \<open>
  Under the sample stream the stored seed 1 draws the tag \<open>x\<close>, whether the call passes
  \<open>seed=0\<close> or no seed and whatever the operating system holds; the explicit seed 3
  draws \<open>y\<close>.
\<close>

theorem select_tags_seed_zero_witness:
  "select_tags sample_builtins os_low (Some 1) (VList [VStr ''x'', VStr ''y''])
      (VInt 1) (VInt 1) (Some 0) = Inr ''x''
   \<and> select_tags sample_builtins os_high (Some 1) (VList [VStr ''x'', VStr ''y''])
      (VInt 1) (VInt 1) None = Inr ''x''
   \<and> select_tags sample_builtins os_high (Some 1) (VList [VStr ''x'', VStr ''y''])
      (VInt 1) (VInt 1) (Some 3) = Inr ''y''"
proof -
  have a: "select_tags sample_builtins os_high (Some 1) (VList [VStr ''x'', VStr ''y''])
      (VInt 1) (VInt 1) None = Inr ''x''"
    by (simp add: run_simps)
  have b: "select_tags sample_builtins os_high (Some 1) (VList [VStr ''x'', VStr ''y''])
      (VInt 1) (VInt 1) (Some 3) = Inr ''y''"
    by (simp add: run_simps)
  show ?thesis
    using select_tags_seed_zero
      [of sample_builtins os_low 1 "VList [VStr ''x'', VStr ''y'']" "VInt 1" "VInt 1" os_high] a b
    by simp
qed

section \<open>Values \<open>select_tags\<close> cannot read\<close>

lemma repeat_count_len:
  "len t1 = len t2 \<Longrightarrow> repeat_count B g n t1 = repeat_count B g n t2"
  by (simp add: repeat_count_def cong: val.case_cong list.case_cong)

lemma draw_tags_iterate:
  "iterate t1 = iterate t2 \<Longrightarrow> draw_tags B g t1 n = draw_tags B g t2 n"
  by (simp add: draw_tags_def parse_tag_distribution_def)

lemma resolve_node_keys:
  assumes "map_of d ''tags'' = None" "map_of d' ''tags'' = Some (VList (map (\<lambda>kv. VStr (fst kv)) d))"
  shows "resolve_node B g (VDict d) p n = resolve_node B g (VDict d') p n"
proof -
  have rc: "repeat_count B g n (VDict d) = repeat_count B g n (VList (map (\<lambda>kv. VStr (fst kv)) d))"
    by (rule repeat_count_len) simp
  have dt: "draw_tags B g' (VDict d) k = draw_tags B g' (VList (map (\<lambda>kv. VStr (fst kv)) d)) k"
    for g' k
    by (rule draw_tags_iterate) simp
  show ?thesis
    using assms by (simp add: resolve_node_def rc dt cong: sum.case_cong prod.case_cong if_cong)
qed

text \<open>
  C6. The claim: a value that is neither a string, nor a sequence, nor a dict with a
  \<open>tags\<close> or \<open>list\<close> field makes \<open>select_tags\<close> signal a ConfigShapeError instead of
  producing a result. The code has no such check. A dict with neither field goes on to
  \<open>parse_tag_distribution\<close>, which iterates over its keys: the keys are sampled as if
  they were the tags, and a result comes back. For \<open>{"foo": "x"}\<close> the only candidate is
  the key \<open>foo\<close>, whatever the generator draws.
\<close>

theorem select_tags_dict_without_tags_counterexample:
  "select_tags sample_builtins os_low (Some 7) (VDict [(''foo'', VStr ''x'')])
     (VInt 1) (VInt 1) None = Inr ''foo''"
  by (simp add: run_simps)

text \<open>
  C6, amended. \<open>select_tags\<close> rejects by shape only what Python cannot iterate: a number
  is not a string and not a dict, so it reaches the loop of \<open>parse_tag_distribution\<close>,
  and iterating over it raises \<open>TypeError\<close>, whatever the seed, \<open>p\<close> and \<open>n\<close>. A dict with
  neither a \<open>tags\<close> nor a \<open>list\<close> field is not rejected: it resolves exactly as the same
  dict with a \<open>tags\<close> field that lists its own keys.
\<close>

theorem select_tags_shape:
  "select_tags B os ss (VInt i) p n sd = Inl TypeError
   \<and> select_tags B os ss (VFloat x) p n sd = Inl TypeError
   \<and> (map_of d ''list'' = None \<and> map_of d ''tags'' = None
      \<longrightarrow> select_tags B os ss (VDict d) p n sd
          = select_tags B os ss
              (VDict ((''tags'', VList (map (\<lambda>kv. VStr (fst kv)) d)) # d)) p n sd)"
proof (intro conjI impI)
  show "select_tags B os ss (VInt i) p n sd = Inl TypeError"
    by (simp add: select_tags_VInt draw_tags_def parse_tag_distribution_def)
  show "select_tags B os ss (VFloat x) p n sd = Inl TypeError"
    by (simp add: select_tags_VFloat draw_tags_def parse_tag_distribution_def)
next
  assume a: "map_of d ''list'' = None \<and> map_of d ''tags'' = None"
  define d' where "d' = (''tags'', VList (map (\<lambda>kv. VStr (fst kv)) d)) # d"
  have l: "map_of d' ''list'' = None"
    and g: "dict_get d' ''probability'' p = dict_get d ''probability'' p"
      "dict_get d' ''repeat'' n = dict_get d ''repeat'' n"
    and t: "map_of d' ''tags'' = Some (VList (map (\<lambda>kv. VStr (fst kv)) d))"
    using a by (simp_all add: d'_def dict_get_def)
  have "resolve_node B g (VDict d) p' n' = resolve_node B g (VDict d') p' n'" for g p' n'
    using a t by (intro resolve_node_keys) simp_all
  then show "select_tags B os ss (VDict d) p n sd
      = select_tags B os ss
          (VDict ((''tags'', VList (map (\<lambda>kv. VStr (fst kv)) d)) # d)) p n sd"
    using a l g unfolding d'_def [symmetric] by (simp add: select_tags_VDict)
qed

theorem select_tags_shape_witness:
  "select_tags sample_builtins os_low (Some 7) (VInt 5) (VInt 1) (VInt 1) None = Inl TypeError
   \<and> select_tags sample_builtins os_low (Some 7) (VFloat (Fin (1 / 2))) (VInt 1) (VInt 1) None
       = Inl TypeError
   \<and> select_tags sample_builtins os_low (Some 7)
        (VDict [(''foo'', VStr ''x''), (''bar'', VStr ''y'')]) (VInt 1) (VInt 1) None
       = select_tags sample_builtins os_low (Some 7)
        (VDict [(''tags'', VList [VStr ''foo'', VStr ''bar'']),
                (''foo'', VStr ''x''), (''bar'', VStr ''y'')]) (VInt 1) (VInt 1) None"
  using select_tags_shape
    [of sample_builtins os_low "Some 7" 5 "VInt 1" "VInt 1" None "Fin (1 / 2)"
        "[(''foo'', VStr ''x''), (''bar'', VStr ''y'')]"]
  by simp

section \<open>A scalar repeat count larger than the pool\<close>

lemma parse_tag_VStr:
  "parse_tag B (VStr t) = Inl ValueError \<or> (\<exists>nm w. parse_tag B (VStr t) = Inr (VStr nm, w))"
  by (auto split: list.splits option.splits)

lemma parse_tags_strings:
  "parse_tags B (map VStr ts) = Inl ValueError
   \<or> (\<exists>nms ws. parse_tags B (map VStr ts) = Inr (map VStr nms, ws)
         \<and> length nms = length ts \<and> length ws = length ts)"
proof (induction ts)
  case Nil
  then show ?case by simp
next
  case (Cons t ts)
  consider "parse_tag B (VStr t) = Inl ValueError"
    | nm w where "parse_tag B (VStr t) = Inr (VStr nm, w)"
    using parse_tag_VStr by blast
  then show ?case
  proof cases
    case 1
    then show ?thesis by simp
  next
    case 2
    from Cons.IH show ?thesis
    proof
      assume "parse_tags B (map VStr ts) = Inl ValueError"
      with 2 show ?thesis by simp
    next
      assume "\<exists>nms ws. parse_tags B (map VStr ts) = Inr (map VStr nms, ws)
         \<and> length nms = length ts \<and> length ws = length ts"
      then obtain nms ws where r: "parse_tags B (map VStr ts) = Inr (map VStr nms, ws)"
        and l: "length nms = length ts" "length ws = length ts"
        by blast
      have "parse_tags B (map VStr (t # ts)) = Inr (map VStr (nm # nms), w # ws)"
        using 2 r by simp
      moreover have "length (nm # nms) = length (t # ts)" "length (w # ws) = length (t # ts)"
        using l by simp_all
      ultimately show ?thesis by blast
    qed
  qed
qed

lemma those_str_of: "those (map str_of (map VStr nms)) = Some nms"
  by (induction nms) simp_all

lemma choice_too_many:
  "int (length nms) < k \<Longrightarrow> choice g (map VStr nms) (VInt k) ps = Inl ValueError"
  by (simp add: choice_def those_str_of del: map_map split: option.splits)

text \<open>
  C4. The claim: for a tag list of size \<open>P\<close> and a scalar repeat count \<open>N > P\<close>,
  \<open>select_tags\<close> clamps the count to \<open>P\<close> and returns a result. The code clamps only the
  upper bound of a range (\<open>max_n = min(n[1], len(tags))\<close>); a scalar \<open>n\<close> goes to
  \<open>rng.choice(..., size=n, replace=False)\<close> as it is, and numpy refuses to draw more than
  the population: the call raises \<open>ValueError\<close>.
\<close>

theorem select_tags_scalar_repeat_too_large:
  assumes "int (length names) < N"
  shows "select_tags B os ss (VList (map VStr names)) p (VInt N) sd = Inl ValueError"
proof -
  consider "parse_tags B (map VStr names) = Inl ValueError"
    | nms ws where "parse_tags B (map VStr names) = Inr (map VStr nms, ws)"
        "length nms = length names"
    using parse_tags_strings by blast
  then show ?thesis
  proof cases
    case 1
    then show ?thesis
      by (simp add: select_tags_VList draw_tags_def parse_tag_distribution_def)
  next
    case 2
    then have "choice g (map VStr nms) (VInt N) ps = Inl ValueError" for g ps
      using assms choice_too_many by simp
    with 2 show ?thesis
      by (simp add: select_tags_VList draw_tags_def parse_tag_distribution_def)
  qed
qed

theorem select_tags_scalar_repeat_too_large_witness:
  "int (length [''x'', ''y'']) < 3
   \<and> select_tags sample_builtins os_low (Some 7) (VList [VStr ''x'', VStr ''y''])
        (VInt 1) (VInt 3) None = Inl ValueError"
  using select_tags_scalar_repeat_too_large
    [of "[''x'', ''y'']" 3 sample_builtins os_low "Some 7" "VInt 1" None]
  by simp

section \<open>What the draws guarantee\<close>

lemma random_range: "0 \<le> fst (random g) \<and> fst (random g) < 1"
proof -
  have "real (g 0 mod 2 ^ 53) < 2 ^ 53"
    by (metis mod_less_divisor of_nat_less_iff of_nat_numeral of_nat_power zero_less_numeral
        zero_less_power)
  then show ?thesis
    by (simp add: random_def next_raw_def)
qed

lemma integers_range:
  assumes "integers g low high = Inr (k, g')"
  shows "low \<le> k \<and> k < high"
proof -
  have lt: "low < high" and k: "k = low + int (g 0) mod (high - low)"
    using assms by (auto simp: integers_def next_raw_def split: if_splits)
  have "0 \<le> int (g 0) mod (high - low)" "int (g 0) mod (high - low) < high - low"
    using lt by simp_all
  then show ?thesis using k by linarith
qed

lemma pick_less: "items \<noteq> [] \<Longrightarrow> pick t items < length items"
  by (induction t items rule: pick.induct) auto

lemma sample_step:
  "sample g (x # xs) (Suc k) =
     (let i = pick (fst (random g) * sum_list (map snd (x # xs))) (x # xs);
          r = sample (snd (random g)) (take i (x # xs) @ drop (Suc i) (x # xs)) k
      in (fst ((x # xs) ! i) # fst r, snd r))"
  by (simp add: split_beta Let_def)

lemma sample_length: "k \<le> length items \<Longrightarrow> length (fst (sample g items k)) = k"
proof (induction k arbitrary: g items)
  case 0
  then show ?case by simp
next
  case (Suc k)
  then obtain x xs where items: "items = x # xs" by (cases items) auto
  define i where "i = pick (fst (random g) * sum_list (map snd (x # xs))) (x # xs)"
  have "i < length (x # xs)" unfolding i_def by (rule pick_less) simp
  then have "k \<le> length (take i (x # xs) @ drop (Suc i) (x # xs))"
    using Suc.prems items by simp
  then have "length (fst (sample (snd (random g)) (take i (x # xs) @ drop (Suc i) (x # xs)) k)) = k"
    by (rule Suc.IH)
  then show ?case
    unfolding items sample_step i_def [symmetric] by (simp add: Let_def)
qed

lemma set_without: "set (take i xs @ drop (Suc i) xs) \<subseteq> set xs"
  using set_take_subset [of i xs] set_drop_subset [of "Suc i" xs] by auto

lemma sample_set: "set (fst (sample g items k)) \<subseteq> fst ` set items"
proof (induction k arbitrary: g items)
  case 0
  then show ?case by simp
next
  case (Suc k)
  show ?case
  proof (cases items)
    case Nil
    then show ?thesis by simp
  next
    case (Cons x xs)
    define i where "i = pick (fst (random g) * sum_list (map snd (x # xs))) (x # xs)"
    have i: "i < length (x # xs)" unfolding i_def by (rule pick_less) simp
    have "set (fst (sample (snd (random g)) (take i (x # xs) @ drop (Suc i) (x # xs)) k))
        \<subseteq> fst ` set (take i (x # xs) @ drop (Suc i) (x # xs))"
      by (rule Suc.IH)
    also have "\<dots> \<subseteq> fst ` set (x # xs)"
      using set_without [of i "x # xs"] by (rule image_mono)
    finally have rest: "set (fst (sample (snd (random g))
        (take i (x # xs) @ drop (Suc i) (x # xs)) k)) \<subseteq> fst ` set (x # xs)" .
    have "fst ((x # xs) ! i) \<in> fst ` set (x # xs)"
      using i by (meson imageI nth_mem)
    with rest show ?thesis
      unfolding Cons sample_step i_def [symmetric] by (simp add: Let_def)
  qed
qed

lemma distinct_without:
  "distinct (map f xs) \<Longrightarrow> i < length xs \<Longrightarrow>
   distinct (map f (take i xs @ drop (Suc i) xs)) \<and> f (xs ! i) \<notin> f ` set (take i xs @ drop (Suc i) xs)"
proof -
  assume d: "distinct (map f xs)" and i: "i < length xs"
  have "xs = take i xs @ xs ! i # drop (Suc i) xs"
    using i by (rule id_take_nth_drop)
  then have "distinct (map f (take i xs @ xs ! i # drop (Suc i) xs))"
    using d by simp
  then show ?thesis by auto
qed

lemma sample_distinct: "distinct (map fst items) \<Longrightarrow> distinct (fst (sample g items k))"
proof (induction k arbitrary: g items)
  case 0
  then show ?case by simp
next
  case (Suc k)
  show ?case
  proof (cases items)
    case Nil
    then show ?thesis by simp
  next
    case (Cons x xs)
    define i where "i = pick (fst (random g) * sum_list (map snd (x # xs))) (x # xs)"
    define rest where "rest = take i (x # xs) @ drop (Suc i) (x # xs)"
    have i: "i < length (x # xs)" unfolding i_def by (rule pick_less) simp
    have dw: "distinct (map fst rest) \<and> fst ((x # xs) ! i) \<notin> fst ` set rest"
      unfolding rest_def using Suc.prems i unfolding Cons by (rule distinct_without)
    then have "distinct (fst (sample (snd (random g)) rest k))"
      using Suc.IH by blast
    moreover have "fst ((x # xs) ! i) \<notin> set (fst (sample (snd (random g)) rest k))"
      using dw sample_set [of "snd (random g)" rest k] by blast
    moreover have "fst (sample g (x # xs) (Suc k))
        = fst ((x # xs) ! i) # fst (sample (snd (random g)) rest k)"
      unfolding sample_step i_def rest_def by (simp add: Let_def)
    ultimately show ?thesis
      unfolding Cons by simp
  qed
qed

section \<open>A range as repeat count\<close>

lemma repeat_count_range:
  assumes "repeat_count B g (VList [VInt lo, VInt hi]) (VList ts) = Inr (v, g')"
  shows "\<exists>k. v = VInt k \<and> lo \<le> k \<and> k < min hi (int (length ts))"
proof -
  from assms obtain k where "integers g lo (min hi (int (length ts))) = Inr (k, g')" "v = VInt k"
    by (auto simp: repeat_count_def split: sum.splits)
  then show ?thesis using integers_range by blast
qed

lemma not_fired_one: "not_fired g (VInt 1) = Inr (False, snd (random g))"
  using random_range [of g] by (simp add: not_fired_def split_beta)

lemma short_lists:
  assumes "length sel = 1 \<or> length sel = 2" "distinct sel" "set sel \<subseteq> {a, b, c}"
  shows "sel \<in> {[a], [b], [c], [a, b], [a, c], [b, a], [b, c], [c, a], [c, b]}"
proof -
  from assms(1) consider u where "sel = [u]" | u v where "sel = [u, v]"
    by (auto simp: length_Suc_conv numeral_2_eq_2)
  then show ?thesis
    using assms(2,3) by cases auto
qed

text \<open>
  C5. The claim: with \<open>repeat = [lo, hi]\<close> and \<open>hi\<close> above the pool size \<open>P\<close>, the count
  drawn takes every value from \<open>lo\<close> up to and including \<open>P\<close>; for the tags
  \<open>["x", "y", "z"]\<close> and \<open>repeat = [1, 5]\<close> between 1 and 3 tags come back, and 3 can.
  The code clamps the upper bound to \<open>P\<close> (\<open>max_n = min(n[1], len(tags))\<close>) and hands it to
  \<open>rng.integers(min_n, max_n)\<close>, whose upper bound is exclusive: the count is 1 or 2,
  never 3. Whatever the generator yields, the result is one or two of the tags.
\<close>

theorem select_tags_range_excludes_pool_size:
  "select_tags B os ss
     (VDict [(''tags'', VList [VStr ''x'', VStr ''y'', VStr ''z'']),
             (''repeat'', VList [VInt 1, VInt 5])])
     (VInt 1) n sd
   \<in> Inr ` {''x'', ''y'', ''z'', ''x, y'', ''x, z'', ''y, x'', ''y, z'', ''z, x'', ''z, y''}"
proof -
  define g0 where "g0 = default_rng B os (effective_seed sd ss)"
  define k where "k = 1 + int (g0 0) mod 2"
  define g1 where "g1 = (\<lambda>i. g0 (Suc i))"
  define items where "items = [(''x'', 1 / 3), (''y'', 1 / 3), (''z'', 1 / (3::real))]"
  define sel where "sel = fst (sample (snd (random g1)) items (nat k))"
  have k12: "k = 1 \<or> k = 2"
    unfolding k_def by presburger
  have rc: "repeat_count B g0 (VList [VInt 1, VInt 5])
      (VList [VStr ''x'', VStr ''y'', VStr ''z'']) = Inr (VInt k, g1)"
    by (simp add: repeat_count_def integers_def next_raw_def k_def g1_def)
  have pt: "parse_tag_distribution B (VList [VStr ''x'', VStr ''y'', VStr ''z''])
      = Inr ([VStr ''x'', VStr ''y'', VStr ''z''], [Fin (1 / 3), Fin (1 / 3), Fin (1 / 3)])"
    by (simp add: parse_tag_distribution_def normalise_def fl_sum_def rnd_exact)
  have ch: "choice g [VStr ''x'', VStr ''y'', VStr ''z''] (VInt k)
      [Fin (1 / 3), Fin (1 / 3), Fin (1 / 3)] = Inr (sample g items (nat k))" for g
    using k12 by (auto simp: choice_def items_def)
  have res: "select_tags B os ss
     (VDict [(''tags'', VList [VStr ''x'', VStr ''y'', VStr ''z'']),
             (''repeat'', VList [VInt 1, VInt 5])])
     (VInt 1) n sd = Inr (stringify_tags sel)"
    by (simp add: select_tags_VDict resolve_node_def dict_get_def g0_def [symmetric] rc
        not_fired_one draw_tags_def pt ch sel_def split_beta)
  have "length sel = nat k"
    unfolding sel_def using k12 by (intro sample_length) (auto simp: items_def)
  then have len: "length sel = 1 \<or> length sel = 2"
    using k12 by auto
  have dis: "distinct sel"
    unfolding sel_def by (rule sample_distinct) (simp add: items_def)
  have sub: "set sel \<subseteq> {''x'', ''y'', ''z''}"
    unfolding sel_def using sample_set [of "snd (random g1)" items "nat k"]
    by (simp add: items_def)
  have "sel \<in> {[''x''], [''y''], [''z''], [''x'', ''y''], [''x'', ''z''], [''y'', ''x''],
      [''y'', ''z''], [''z'', ''x''], [''z'', ''y'']}"
    using len dis sub by (rule short_lists)
  then have "stringify_tags sel
      \<in> {''x'', ''y'', ''z'', ''x, y'', ''x, z'', ''y, x'', ''y, z'', ''z, x'', ''z, y''}"
    by (auto simp: stringify_tags_def)
  then show ?thesis
    unfolding res by (rule imageI)
qed

text \<open>Under the sample stream the stored seed 7 draws two tags.\<close>

theorem select_tags_range_excludes_pool_size_witness:
  "select_tags sample_builtins os_low (Some 7)
     (VDict [(''tags'', VList [VStr ''x'', VStr ''y'', VStr ''z'']),
             (''repeat'', VList [VInt 1, VInt 5])])
     (VInt 1) (VInt 1) None = Inr ''x, z''
   \<and> Inr ''x, z''
     \<in> Inr ` {''x'', ''y'', ''z'', ''x, y'', ''x, z'', ''y, x'', ''y, z'', ''z, x'', ''z, y''}"
proof -
  have "select_tags sample_builtins os_low (Some 7)
     (VDict [(''tags'', VList [VStr ''x'', VStr ''y'', VStr ''z'']),
             (''repeat'', VList [VInt 1, VInt 5])])
     (VInt 1) (VInt 1) None = Inr ''x, z''"
    by (simp add: run_simps)
  then show ?thesis
    using select_tags_range_excludes_pool_size [of sample_builtins os_low "Some 7" "VInt 1" None]
    by simp
qed

section \<open>The weighted-set parser\<close>

lemma split_from_char:
  "split_from [c] acc s =
     (if c \<in> set s
      then (rev acc @ takeWhile (\<lambda>x. x \<noteq> c) s)
             # split_from [c] [] (drop 1 (dropWhile (\<lambda>x. x \<noteq> c) s))
      else [rev acc @ s])"
proof (induction s arbitrary: acc)
  case Nil
  then show ?case by simp
next
  case (Cons a s)
  show ?case
  proof (cases "a = c")
    case True
    then show ?thesis by simp
  next
    case False
    then show ?thesis using Cons.IH [of "a # acc"] by simp
  qed
qed

lemma split_from_no_sep: "c \<notin> set s \<Longrightarrow> split_from [c] acc s = [rev acc @ s]"
  by (induction s arbitrary: acc) auto

lemma length_split_from_char: "length (split_from [c] acc s) = Suc (count_list s c)"
  by (induction s arbitrary: acc) auto

lemma count_list_0_iff: "(count_list s c = 0) = (c \<notin> set s)"
  by (induction s) auto

lemma count_list_after_first:
  "c \<in> set s \<Longrightarrow> count_list (drop 1 (dropWhile (\<lambda>x. x \<noteq> c) s)) c = count_list s c - 1"
  by (induction s) auto

lemma split_one_colon:
  assumes "count_list tag (CHR '':'') = 1"
  shows "split '':'' tag
     = [spec_name tag, drop 1 (dropWhile (\<lambda>c. c \<noteq> CHR '':'') tag)]"
proof -
  have mem: "CHR '':'' \<in> set tag"
    using assms count_list_0_iff [of tag "CHR '':''"] by auto
  then have "count_list (drop 1 (dropWhile (\<lambda>c. c \<noteq> CHR '':'') tag)) (CHR '':'') = 0"
    using assms count_list_after_first [of "CHR '':''" tag] by simp
  then have "CHR '':'' \<notin> set (drop 1 (dropWhile (\<lambda>c. c \<noteq> CHR '':'') tag))"
    by (simp add: count_list_0_iff)
  then have "split_from '':'' [] (drop 1 (dropWhile (\<lambda>c. c \<noteq> CHR '':'') tag))
      = [drop 1 (dropWhile (\<lambda>c. c \<noteq> CHR '':'') tag)]"
    by (simp add: split_from_no_sep)
  then show ?thesis
    using mem by (simp add: split_def spec_name_def split_from_char [of _ "[]" tag])
qed

lemma parse_tag_at_most_one_colon:
  assumes "count_list tag (CHR '':'') \<le> 1"
  shows "parse_tag B (VStr tag)
     = (case spec_weight B tag of
          None \<Rightarrow> Inl ValueError
        | Some w \<Rightarrow> Inr (VStr (spec_name tag), w))"
proof (cases "CHR '':'' \<in> set tag")
  case True
  then have "count_list tag (CHR '':'') = 1"
    using assms count_list_0_iff [of tag "CHR '':''"] by auto
  then show ?thesis
    using True by (simp add: split_one_colon spec_weight_def)
next
  case False
  then have "spec_name tag = tag"
    by (auto simp: spec_name_def takeWhile_eq_all_conv)
  then show ?thesis
    using False by (simp add: spec_weight_def)
qed

lemma parse_tag_many_colons:
  assumes "2 \<le> count_list tag (CHR '':'')"
  shows "parse_tag B (VStr tag) = Inl ValueError"
proof -
  have mem: "CHR '':'' \<in> set tag"
    using assms count_list_0_iff [of tag "CHR '':''"] by auto
  have "3 \<le> length (split '':'' tag)"
    using assms by (simp add: split_def length_split_from_char)
  then obtain a b c r where "split '':'' tag = a # b # c # r"
    by (metis Suc_le_length_iff numeral_3_eq_3)
  then show ?thesis using mem by simp
qed

lemma parse_tag_name:
  assumes "parse_tag B (VStr tag) = Inr (v, w)"
  shows "v = VStr (spec_name tag) \<and> count_list tag (CHR '':'') \<le> 1"
proof (cases "count_list tag (CHR '':'') \<le> 1")
  case True
  then show ?thesis
    using assms by (auto simp: parse_tag_at_most_one_colon simp del: parse_tag.simps
        split: option.splits)
next
  case False
  then have "parse_tag B (VStr tag) = Inl ValueError"
    by (intro parse_tag_many_colons) simp
  then show ?thesis using assms by simp
qed

lemma parse_tags_names:
  "parse_tags B (map VStr tags) = Inr (ns, ws) \<Longrightarrow>
   ns = map (\<lambda>t. VStr (spec_name t)) tags \<and> length ws = length tags"
proof (induction tags arbitrary: ns ws)
  case Nil
  then show ?case by simp
next
  case (Cons t tags)
  from Cons.prems obtain v w ns' ws' where
    t: "parse_tag B (VStr t) = Inr (v, w)" and
    r: "parse_tags B (map VStr tags) = Inr (ns', ws')" and
    e: "ns = v # ns'" "ws = w # ws'"
    by (auto simp del: parse_tag.simps split: sum.splits)
  show ?case
    using parse_tag_name [OF t] Cons.IH [OF r] e by (simp del: parse_tag.simps)
qed

lemma parse_tags_spec:
  assumes "\<forall>t \<in> set tags. count_list t (CHR '':'') \<le> 1"
    and "map (spec_weight B) tags = map Some ws"
  shows "parse_tags B (map VStr tags) = Inr (map (\<lambda>t. VStr (spec_name t)) tags, ws)"
  using assms
proof (induction tags arbitrary: ws)
  case Nil
  then show ?case by simp
next
  case (Cons t tags)
  from Cons.prems(2) obtain w ws' where
    ws: "ws = w # ws'" "spec_weight B t = Some w" "map (spec_weight B) tags = map Some ws'"
    by (cases ws) auto
  have "parse_tag B (VStr t) = Inr (VStr (spec_name t), w)"
    using Cons.prems(1) ws(2) by (simp add: parse_tag_at_most_one_colon del: parse_tag.simps)
  moreover have "parse_tags B (map VStr tags) = Inr (map (\<lambda>t. VStr (spec_name t)) tags, ws')"
    using Cons.IH [OF _ ws(3)] Cons.prems(1) by simp
  ultimately show ?case using ws(1) by (simp del: parse_tag.simps)
qed

lemma parse_tags_many_colons:
  assumes "\<exists>t \<in> set tags. 2 \<le> count_list t (CHR '':'')"
  shows "parse_tags B (map VStr tags) = Inl ValueError"
  using assms
proof (induction tags)
  case Nil
  then show ?case by simp
next
  case (Cons t tags)
  show ?case
  proof (cases "2 \<le> count_list t (CHR '':'')")
    case True
    then show ?thesis by (simp add: parse_tag_many_colons del: parse_tag.simps)
  next
    case False
    then have "parse_tags B (map VStr tags) = Inl ValueError"
      using Cons by auto
    then show ?thesis
      using parse_tag_VStr [of B t] by (auto simp del: parse_tag.simps)
  qed
qed








section \<open>The probability gate\<close>

lemma repeat_count_scalar:
  "(\<nexists>ns. n = VList ns) \<Longrightarrow> repeat_count B g n tags = Inr (n, g)"
  by (cases n) (simp_all add: repeat_count_def)

lemma repeat_count_proper_range:
  assumes "len t = Inr P" "lo < min hi P" "- (2 ^ 63) \<le> lo" "min hi P \<le> 2 ^ 63"
  shows "\<exists>k. repeat_count B g (VList (VInt lo # VInt hi # rest)) t
            = Inr (VInt k, snd (next_raw g))
          \<and> lo \<le> k \<and> k < min hi P"
proof -
  define k where "k = lo + int (g 0) mod (min hi P - lo)"
  have i: "integers g lo (min hi P) = Inr (k, snd (next_raw g))"
    using assms(2-4) by (auto simp: integers_def next_raw_def k_def min_def split: if_splits)
  then have "lo \<le> k \<and> k < min hi P"
    by (rule integers_range)
  moreover have "repeat_count B g (VList (VInt lo # VInt hi # rest)) t
      = Inr (VInt k, snd (next_raw g))"
    using assms(1) i by (simp add: repeat_count_def)
  ultimately show ?thesis by blast
qed

lemma not_fired_zero:
  "pv = VInt 0 \<or> pv = VFloat (Fin 0) \<Longrightarrow>
   not_fired g pv = Inr (0 < fst (random g), snd (random g))"
  by (auto simp: not_fired_def split_beta)

lemma not_fired_full:
  "pv = VInt 1 \<or> pv = VFloat (Fin 1) \<Longrightarrow> not_fired g pv = Inr (False, snd (random g))"
  using random_range [of g] by (auto simp: not_fired_def split_beta)

lemma join_Nil_iff: "(join sep xs = []) = (xs = [] \<or> (sep = [] \<and> set xs \<subseteq> {[]}) \<or> xs = [[]])"
  by (induction sep xs rule: join.induct) auto

lemma stringify_tags_nonempty:
  assumes "sel \<noteq> []" "\<forall>s \<in> set sel. s \<noteq> []"
  shows "stringify_tags sel \<noteq> []"
proof -
  have "join '', '' sel \<noteq> []"
    using assms by (auto simp: join_Nil_iff)
  then show ?thesis
    by (simp add: stringify_tags_def replace_Nil_iff)
qed

lemma draw_tags_nonempty:
  assumes "1 \<le> k" "\<forall>t \<in> set ts. spec_name t \<noteq> []"
  shows "draw_tags B g (VList (map VStr ts)) (VInt k) \<noteq> Inr []"
proof (cases "parse_tags B (map VStr ts)")
  case (Inl e)
  then show ?thesis
    by (simp add: draw_tags_def parse_tag_distribution_def)
next
  case (Inr r)
  obtain ns ws where r: "r = (ns, ws)" by (cases r)
  have ns: "ns = map VStr (map spec_name ts)"
    using parse_tags_names [of B ts ns ws] Inr r by simp
  have pd: "parse_tag_distribution B (VList (map VStr ts)) = Inr (ns, normalise ws)"
    using Inr r by (simp add: parse_tag_distribution_def)
  show ?thesis
  proof (cases "choice g ns (VInt k) (normalise ws)")
    case (Inl e)
    then show ?thesis by (simp add: draw_tags_def pd)
  next
    case c: (Inr out)
    from c obtain ps where
      out: "out = sample g (zip (map spec_name ts) ps) (nat k)" and
      len: "length (map spec_name ts) = length ps" and
      k: "k \<le> int (length (map spec_name ts))"
      unfolding choice_def ns those_str_of
      by (auto split: option.splits if_splits)
    define sel where "sel = fst out"
    have "length sel = nat k"
      unfolding sel_def out using k len by (intro sample_length) simp
    then have ne: "sel \<noteq> []" using assms(1) by auto
    have "set sel \<subseteq> fst ` set (zip (map spec_name ts) ps)"
      unfolding sel_def out by (rule sample_set)
    also have "\<dots> \<subseteq> set (map spec_name ts)"
      by (auto dest: set_zip_leftD)
    finally have sub: "set sel \<subseteq> spec_name ` set ts"
      by simp
    have "\<forall>s \<in> set sel. s \<noteq> []"
    proof
      fix s
      assume "s \<in> set sel"
      then obtain t where "t \<in> set ts" "s = spec_name t"
        using sub by auto
      then show "s \<noteq> []"
        using assms(2) by simp
    qed
    with ne have "stringify_tags sel \<noteq> []"
      by (rule stringify_tags_nonempty)
    then show ?thesis
      using c by (simp add: draw_tags_def pd sel_def split_beta)
  qed
qed

lemma select_tags_working:
  "select_tags B os ss (VDict d) p n sd =
     (case working_tags B os ss d (dict_get d ''probability'' p) (dict_get d ''repeat'' n) of
        Inl e \<Rightarrow> Inl e
      | Inr t \<Rightarrow>
          (case repeat_count B (default_rng B os (effective_seed sd ss))
                  (dict_get d ''repeat'' n) t of
             Inl e \<Rightarrow> Inl e
           | Inr (n', rng1) \<Rightarrow>
               (case not_fired rng1 (dict_get d ''probability'' p) of
                  Inl e \<Rightarrow> Inl e
                | Inr (quiet, rng2) \<Rightarrow> if quiet then Inr [] else draw_tags B rng2 t n')))"
  by (simp add: select_tags_VDict working_tags_def resolve_node_def
      split: option.splits sum.splits)

text \<open>
  The gate is \<open>rng.random() > p\<close>, a strict comparison, and numpy documents
  \<open>random()\<close> as a draw from the half-open interval \<open>[0.0, 1.0)\<close>: when the draw is \<open>0.0\<close>
  a node with \<open>probability = 0\<close> fires. The run below fixes the stream (all words zero),
  not a seed: which seed of numpy's generator yields this draw is not known.
\<close>

lemma zero_draw_fires:
  "select_tags (sample_builtins\<lparr>entropy := \<lambda>sd i. 0\<rparr>) os_low (Some 7)
     (VDict [(''probability'', VInt 0), (''tags'', VList [VStr ''a''])])
     (VInt 1) (VInt 1) None = Inr ''a''"
  by (simp add: run_simps)

text \<open>
  C8. The claim: for every seed a Choice node with \<open>probability = 0\<close> resolves to the
  empty result, and one with \<open>probability = 1\<close> over a non-empty tag list never does. Two
  runs, the same for every seed and generator, show where it fails:
  \<^item> with \<open>probability = 1\<close>, the tag list \<open>["a"]\<close> and \<open>repeat = 0\<close>, \<open>choice\<close> draws no
    tag and the result is empty;
  \<^item> with \<open>probability = 0\<close> and \<open>repeat = [1, 1]\<close>, \<open>rng.integers(1, 1)\<close> raises
    \<open>ValueError\<close> before the gate is reached.
\<close>

theorem probability_gate_counterexample:
  "select_tags sample_builtins os_low (Some 7)
     (VDict [(''probability'', VInt 1), (''tags'', VList [VStr ''a'']), (''repeat'', VInt 0)])
     (VInt 1) (VInt 1) None = Inr []
   \<and> select_tags sample_builtins os_low (Some 7)
     (VDict [(''probability'', VInt 0), (''tags'', VList [VStr ''a'']),
             (''repeat'', VList [VInt 1, VInt 1])])
     (VInt 1) (VInt 1) None = Inl ValueError"
  by (simp add: run_simps)

text \<open>
  C8, amended. Take a Choice node that has a working tag collection \<open>t\<close> (its \<open>list\<close>
  indirection, if it has one, resolves) and whose repeat count \<open>r\<close> is a scalar or a
  range \<open>[lo, hi]\<close> with \<open>lo < min(hi, P)\<close>, \<open>P\<close> the size of \<open>t\<close>, so that
  \<open>rng.integers\<close> has a value to draw. Then
  \<^item> with \<open>probability = 0\<close> the result is empty for every seed whose draw at the gate
    is not \<open>0.0\<close>;
  \<^item> with \<open>probability = 1\<close>, tags whose names (the text before the colon) are not empty
    and a repeat count of at least 1 (an integer \<open>r \<ge> 1\<close>, or a range with \<open>lo \<ge> 1\<close>),
    the result is never empty.
\<close>

theorem probability_gate:
  assumes "working_tags B os ss d pv r = Inr t"
    and "dict_get d ''probability'' p = pv" and "dict_get d ''repeat'' n = r"
    and "(\<nexists>ns. r = VList ns)
         \<or> (\<exists>lo hi rest P. r = VList (VInt lo # VInt hi # rest) \<and> len t = Inr P
               \<and> lo < min hi P \<and> - (2 ^ 63) \<le> lo \<and> min hi P \<le> 2 ^ 63)"
  shows
    "((pv = VInt 0 \<or> pv = VFloat (Fin 0))
        \<and> 0 < fst (random (case r of
                              VList ns \<Rightarrow> snd (next_raw (default_rng B os (effective_seed sd ss)))
                            | _ \<Rightarrow> default_rng B os (effective_seed sd ss)))
      \<longrightarrow> select_tags B os ss (VDict d) p n sd = Inr [])
     \<and> ((pv = VInt 1 \<or> pv = VFloat (Fin 1))
        \<and> t = VList (map VStr ts) \<and> (\<forall>x \<in> set ts. spec_name x \<noteq> [])
        \<and> ((\<exists>k. r = VInt k \<and> 1 \<le> k) \<or> (\<exists>lo rest. r = VList (VInt lo # rest) \<and> 1 \<le> lo))
      \<longrightarrow> select_tags B os ss (VDict d) p n sd \<noteq> Inr [])"
proof -
  define g0 where "g0 = default_rng B os (effective_seed sd ss)"
  define g1 where "g1 = (case r of VList ns \<Rightarrow> snd (next_raw g0) | _ \<Rightarrow> g0)"
  have rc: "\<exists>k. repeat_count B g0 r t = Inr (k, g1)
      \<and> (\<forall>j. r = VInt j \<longrightarrow> k = VInt j)
      \<and> (\<forall>lo rest. r = VList (VInt lo # rest) \<longrightarrow> (\<exists>j. k = VInt j \<and> lo \<le> j))"
    using assms(4)
  proof
    assume s: "\<nexists>ns. r = VList ns"
    then have "g1 = g0"
      by (cases r) (simp_all add: g1_def)
    then show ?thesis
      using repeat_count_scalar [OF s, of B g0 t] s by auto
  next
    assume "\<exists>lo hi rest P. r = VList (VInt lo # VInt hi # rest) \<and> len t = Inr P
               \<and> lo < min hi P \<and> - (2 ^ 63) \<le> lo \<and> min hi P \<le> 2 ^ 63"
    then obtain lo hi rest P where r: "r = VList (VInt lo # VInt hi # rest)"
      and c: "len t = Inr P" "lo < min hi P" "- (2 ^ 63) \<le> lo" "min hi P \<le> 2 ^ 63"
      by blast
    have "g1 = snd (next_raw g0)"
      by (simp add: g1_def r)
    then show ?thesis
      using repeat_count_proper_range [OF c, of B g0 rest] r by auto
  qed
  then obtain k where k: "repeat_count B g0 r t = Inr (k, g1)"
    and ks: "\<forall>j. r = VInt j \<longrightarrow> k = VInt j"
    and kr: "\<forall>lo rest. r = VList (VInt lo # rest) \<longrightarrow> (\<exists>j. k = VInt j \<and> lo \<le> j)"
    by (elim exE conjE)
  have sel: "select_tags B os ss (VDict d) p n sd =
      (case not_fired g1 pv of
         Inl e \<Rightarrow> Inl e
       | Inr (quiet, rng2) \<Rightarrow> if quiet then Inr [] else draw_tags B rng2 t k)"
    using assms(1-3) k by (simp add: select_tags_working g0_def)
  show ?thesis
  proof (intro conjI impI)
    assume a: "(pv = VInt 0 \<or> pv = VFloat (Fin 0))
        \<and> 0 < fst (random (case r of
                              VList ns \<Rightarrow> snd (next_raw (default_rng B os (effective_seed sd ss)))
                            | _ \<Rightarrow> default_rng B os (effective_seed sd ss)))"
    then have "0 < fst (random g1)"
      by (simp add: g1_def g0_def cong: val.case_cong)
    moreover have "not_fired g1 pv = Inr (0 < fst (random g1), snd (random g1))"
      using a by (intro not_fired_zero) simp
    ultimately show "select_tags B os ss (VDict d) p n sd = Inr []"
      by (simp add: sel)
  next
    assume a: "(pv = VInt 1 \<or> pv = VFloat (Fin 1))
        \<and> t = VList (map VStr ts) \<and> (\<forall>x \<in> set ts. spec_name x \<noteq> [])
        \<and> ((\<exists>k. r = VInt k \<and> 1 \<le> k) \<or> (\<exists>lo rest. r = VList (VInt lo # rest) \<and> 1 \<le> lo))"
    then obtain j where j: "k = VInt j" "1 \<le> j"
      using ks kr by fastforce
    have nf: "not_fired g1 pv = Inr (False, snd (random g1))"
      using a by (intro not_fired_full) simp
    have "draw_tags B (snd (random g1)) (VList (map VStr ts)) (VInt j) \<noteq> Inr []"
      using a j(2) by (intro draw_tags_nonempty) simp_all
    then show "select_tags B os ss (VDict d) p n sd \<noteq> Inr []"
      using a j(1) by (simp add: sel nf)
  qed
qed

theorem probability_gate_witness:
  "select_tags sample_builtins os_low (Some 1)
     (VDict [(''probability'', VInt 0), (''tags'', VList [VStr ''a'', VStr ''b''])])
     (VInt 1) (VInt 1) None = Inr []
   \<and> select_tags sample_builtins os_low (Some 1)
     (VDict [(''list'', VStr ''x''),
             (''x'', VDict [(''tags'', VList [VStr ''a:1'', VStr ''b:2'', VStr ''c''])]),
             (''probability'', VFloat (Fin 0)), (''repeat'', VList [VInt 1, VInt 3])])
     (VInt 1) (VInt 1) None = Inr []
   \<and> select_tags sample_builtins os_low (Some 1)
     (VDict [(''list'', VStr ''x''),
             (''x'', VDict [(''tags'', VList [VStr ''a:1'', VStr ''b:2'', VStr ''c''])]),
             (''probability'', VInt 1), (''repeat'', VList [VInt 1, VInt 3])])
     (VInt 1) (VInt 1) None \<noteq> Inr []
   \<and> select_tags sample_builtins os_low (Some 1)
     (VDict [(''probability'', VInt 1), (''tags'', VList [VStr ''a'', VStr ''b'']),
             (''repeat'', VInt 2)])
     (VInt 1) (VInt 1) None = Inr ''b, a''"
proof -
  let ?t = "VList [VStr ''a:1'', VStr ''b:2'', VStr ''c'']"
  let ?d0 = "[(''probability'', VInt 0), (''tags'', VList [VStr ''a'', VStr ''b''])]"
  let ?d1 = "[(''list'', VStr ''x''), (''x'', VDict [(''tags'', ?t)]),
              (''probability'', VFloat (Fin 0)), (''repeat'', VList [VInt 1, VInt 3])]"
  let ?d2 = "[(''list'', VStr ''x''), (''x'', VDict [(''tags'', ?t)]),
              (''probability'', VInt 1), (''repeat'', VList [VInt 1, VInt 3])]"
  have u0: "0 < fst (random (default_rng sample_builtins os_low (effective_seed None (Some 1))))"
    by (simp add: random_def default_rng_def next_raw_def effective_seed_def sample_builtins_def)
  have u1: "0 < fst (random (snd (next_raw
      (default_rng sample_builtins os_low (effective_seed None (Some 1))))))"
    by (simp add: random_def default_rng_def next_raw_def effective_seed_def sample_builtins_def)
  have w0: "working_tags sample_builtins os_low (Some 1) ?d0 (VInt 0) (VInt 1)
      = Inr (VList [VStr ''a'', VStr ''b''])"
    by (simp add: working_tags_def)
  have w1: "working_tags sample_builtins os_low (Some 1) ?d1 (VFloat (Fin 0))
      (VList [VInt 1, VInt 3]) = Inr ?t"
    by (simp add: working_tags_def select_tags_VStr)
  have w2: "working_tags sample_builtins os_low (Some 1) ?d2 (VInt 1)
      (VList [VInt 1, VInt 3]) = Inr ?t"
    by (simp add: working_tags_def select_tags_VStr)
  have r1: "\<exists>lo hi rest P. VList [VInt 1, VInt 3] = VList (VInt lo # VInt hi # rest)
      \<and> len ?t = Inr P \<and> lo < min hi P \<and> - (2 ^ 63) \<le> lo \<and> min hi P \<le> 2 ^ 63"
    by simp
  have nm: "\<forall>x \<in> set [''a:1'', ''b:2'', ''c'']. spec_name x \<noteq> []"
    by (simp add: spec_name_def)
  have a: "select_tags sample_builtins os_low (Some 1) (VDict ?d0) (VInt 1) (VInt 1) None
      = Inr []"
    using probability_gate [where B = sample_builtins and os = os_low and ss = "Some 1"
        and d = ?d0 and pv = "VInt 0" and r = "VInt 1" and p = "VInt 1" and n = "VInt 1"
        and sd = None, OF w0] u0
    by (simp add: dict_get_def)
  have b: "select_tags sample_builtins os_low (Some 1) (VDict ?d1) (VInt 1) (VInt 1) None
      = Inr []"
    using probability_gate [where B = sample_builtins and os = os_low and ss = "Some 1"
        and d = ?d1 and pv = "VFloat (Fin 0)" and r = "VList [VInt 1, VInt 3]"
        and p = "VInt 1" and n = "VInt 1" and sd = None, OF w1] u1 r1
    by (simp add: dict_get_def)
  have c: "select_tags sample_builtins os_low (Some 1) (VDict ?d2) (VInt 1) (VInt 1) None
      \<noteq> Inr []"
    using probability_gate [where B = sample_builtins and os = os_low and ss = "Some 1"
        and d = ?d2 and pv = "VInt 1" and r = "VList [VInt 1, VInt 3]"
        and p = "VInt 1" and n = "VInt 1" and sd = None
        and ts = "[''a:1'', ''b:2'', ''c'']", OF w2] r1 nm
    by (simp add: dict_get_def)
  have e: "select_tags sample_builtins os_low (Some 1)
     (VDict [(''probability'', VInt 1), (''tags'', VList [VStr ''a'', VStr ''b'']),
             (''repeat'', VInt 2)])
     (VInt 1) (VInt 1) None = Inr ''b, a''"
    by (simp add: run_simps)
  from a b c e show ?thesis by blast
qed

section \<open>Runs of the entry point\<close>

lemma run_node_fst:
  "fst (run_node M lookup os self sd kwargs) =
     (case fst (override_loop lookup (data self) None kwargs) of
        Some e \<Rightarrow> Inl e
      | None \<Rightarrow>
          fst (get_prompt M os
            (update_seed M (self\<lparr>data := snd (override_loop lookup (data self) None kwargs)\<rparr>) sd)))"
  by (simp add: run_node_def split: prod.splits option.splits)

lemma get_prompt_fst:
  "fst (get_prompt M os self) =
     (case hook M os (seed self) (data self) (components self) of
        Inl e \<Rightarrow> Inl e
      | Inr comps \<Rightarrow>
          (case fst (str_all (str_of_component M os) (map snd comps)) of
             Inl e \<Rightarrow> Inl e
           | Inr ss \<Rightarrow> Inr (stringify_tags ss)))"
  by (auto simp: get_prompt_def build_prompt_def split: prod.splits option.splits sum.splits)

lemma get_prompt_data: "data (snd (get_prompt M os self)) = data self"
  by (simp add: get_prompt_def build_prompt_def split: prod.splits option.splits sum.splits)

lemma run_node_data:
  "data (snd (run_node M lookup os self sd kwargs))
     = snd (override_loop lookup (data self) None kwargs)"
  by (simp add: run_node_def get_prompt_data update_seed_def split: prod.splits option.splits)

lemma stringify_tags_Nil: "stringify_tags [] = []"
  by (simp add: stringify_tags_def)

lemma run_node_no_components:
  "components self = [] \<Longrightarrow>
   fst (run_node (node_class M) lookup os self sd kwargs) =
     (case fst (override_loop lookup (data self) None kwargs) of
        Some e \<Rightarrow> Inl e
      | None \<Rightarrow> Inr [])"
  by (simp add: run_node_fst get_prompt_fst update_seed_def node_class_def build_components_def
      stringify_tags_Nil cong: option.case_cong)

lemma run_node_keeps_no_components:
  "components self = [] \<Longrightarrow>
   components (snd (run_node (node_class M) lookup os self sd kwargs)) = []"
  by (simp add: run_node_def get_prompt_def build_prompt_def update_seed_def node_class_def
      build_components_def split: prod.splits option.splits sum.splits)

lemma init_fields: "data (init sd cfg) = cfg" "components (init sd cfg) = []"
  by (simp_all add: init_def)


lemmas node_simps =
  run_node_def get_prompt_def build_prompt_def build_components_def update_seed_def
  seed_component_def init_def node_class_def fragments_def leaves_def
  get_nested_dict_value_def split_def stringify_tags_def




text \<open>
  C2. The claim: an override whose value is \<open>"random"\<close> leaves its entry of the data as
  it was. The comment in \<open>run_node\<close> says the same (\<open>If it's "random", keep the previous
  value\<close>), but the assignment \<open>self.data[arg] = output\<close> stands outside the \<open>if\<close>: after
  an override with a path, a \<open>"random"\<close> one stores the value looked up for that earlier
  override, and a \<open>"random"\<close> override that comes first finds \<open>output\<close> unbound.
\<close>

theorem run_node_random_overwrites:
  "data (snd (run_node fragments get_nested_dict_value os_low
       (init (Some 0) [(''a'', VStr ''p''), (''b'', VStr ''x''), (''c'', VStr ''y'')])
       0 [(''a'', ''b''), (''c'', ''random'')]))
     = [(''a'', VStr ''x''), (''b'', VStr ''x''), (''c'', VStr ''x'')]
   \<and> fst (run_node fragments get_nested_dict_value os_low
       (init (Some 0) [(''a'', VStr ''p''), (''b'', VStr ''x''), (''c'', VStr ''y'')])
       0 [(''c'', ''random'')]) = Inl UnboundLocalError"
  by (simp add: node_simps)

text \<open>
  C3. The claim: data and components are rebuilt before each prompt, so a second
  \<open>run_node\<close> on an instance behaves like a first one on a fresh node. The data is
  loaded in \<open>__init__\<close> only, and \<open>run_node\<close> writes the overrides into it in place. With
  the overrides \<open>a = "b", b = "c"\<close> the second run leaves other data than a first run
  does; with \<open>a = "a.b"\<close> the first run replaces the table \<open>a\<close> by its entry and returns a
  prompt, and the second run, looking \<open>a.b\<close> up in what the first left, fails.
\<close>

theorem run_node_second_call_counterexample:
  "data (snd (run_node fragments get_nested_dict_value os_low
       (snd (run_node fragments get_nested_dict_value os_low
          (init (Some 0) [(''a'', VStr ''1''), (''b'', VStr ''2''), (''c'', VStr ''3'')])
          7 [(''a'', ''b''), (''b'', ''c'')]))
       7 [(''a'', ''b''), (''b'', ''c'')]))
     \<noteq> data (snd (run_node fragments get_nested_dict_value os_low
          (init (Some 0) [(''a'', VStr ''1''), (''b'', VStr ''2''), (''c'', VStr ''3'')])
          7 [(''a'', ''b''), (''b'', ''c'')]))
   \<and> fst (run_node fragments get_nested_dict_value os_low
       (init (Some 0) [(''a'', VDict [(''b'', VStr ''x'')])]) 7 [(''a'', ''a.b'')]) = Inr []
   \<and> fst (run_node fragments get_nested_dict_value os_low
       (snd (run_node fragments get_nested_dict_value os_low
          (init (Some 0) [(''a'', VDict [(''b'', VStr ''x'')])]) 7 [(''a'', ''a.b'')]))
       7 [(''a'', ''a.b'')]) = Inl LookupError"
  by (simp add: node_simps)

text \<open>
  C3, amended. Only the prompt is rebuilt before it is produced (\<open>build_components\<close> is
  a hook that does nothing in \<open>Node\<close>); the data carries over. A second run on an
  instance of \<open>Node\<close> returns, and leaves as data, what a first run does on a node
  constructed with the data the earlier run left behind, whatever the seeds of the
  constructor and of the earlier run and whatever the operating system holds.
\<close>

theorem run_node_second_call:
  "fst (run_node (node_class M) lookup os2
       (snd (run_node (node_class M) lookup os1 (init s0 cfg) sd1 kw1)) sd2 kw2)
     = fst (run_node (node_class M) lookup os3
         (init s0' (data (snd (run_node (node_class M) lookup os1 (init s0 cfg) sd1 kw1))))
         sd2 kw2)
   \<and> data (snd (run_node (node_class M) lookup os2
       (snd (run_node (node_class M) lookup os1 (init s0 cfg) sd1 kw1)) sd2 kw2))
     = data (snd (run_node (node_class M) lookup os3
         (init s0' (data (snd (run_node (node_class M) lookup os1 (init s0 cfg) sd1 kw1))))
         sd2 kw2))"
  by (simp add: run_node_no_components run_node_keeps_no_components run_node_data init_fields
      cong: option.case_cong)

theorem run_node_second_call_witness:
  "fst (run_node (node_class fragments) get_nested_dict_value os_low
       (snd (run_node (node_class fragments) get_nested_dict_value os_low
          (init (Some 0) [(''a'', VDict [(''b'', VStr ''x'')])]) 7 [(''a'', ''a.b'')]))
       7 [(''a'', ''a.b'')])
     = fst (run_node (node_class fragments) get_nested_dict_value os_high
         (init None [(''a'', VStr ''x'')]) 7 [(''a'', ''a.b'')])
   \<and> data (snd (run_node (node_class fragments) get_nested_dict_value os_low
          (init (Some 0) [(''a'', VDict [(''b'', VStr ''x'')])]) 7 [(''a'', ''a.b'')]))
     = [(''a'', VStr ''x'')]"
proof -
  have d: "data (snd (run_node (node_class fragments) get_nested_dict_value os_low
          (init (Some 0) [(''a'', VDict [(''b'', VStr ''x'')])]) 7 [(''a'', ''a.b'')]))
     = [(''a'', VStr ''x'')]"
    by (simp add: node_simps)
  show ?thesis
    using run_node_second_call
      [of fragments get_nested_dict_value os_low os_low "Some 0"
          "[(''a'', VDict [(''b'', VStr ''x'')])]" 7 "[(''a'', ''a.b'')]" 7 "[(''a'', ''a.b'')]"
          os_high None]
    by (simp add: d)
qed

end
